theory Spec2Isabelle
  imports Complex_Main
begin

section \<open>Tensors\<close>

text \<open>
  The program computes on torch tensors. A tensor is modelled as a nested list of
  numbers: \<open>Sc x\<close> is a zero-dimensional tensor, \<open>Nd ts\<close> a tensor whose first
  dimension ranges over \<open>ts\<close>. Floating-point numbers are idealised as reals
  throughout; the one special value that the code can meet through \<open>mean\<close>, the
  not-a-number of an empty mean, is a value of its own (\<open>NaN\<close> below).
\<close>

datatype error = External string | RuntimeError string

datatype tensor = Sc real | Nd "tensor list"

fun ndim :: "tensor \<Rightarrow> nat" where
  "ndim (Sc x) = 0"
| "ndim (Nd []) = 1"
| "ndim (Nd (t # ts)) = Suc (ndim t)"

fun shape :: "tensor \<Rightarrow> nat list" where
  "shape (Sc x) = []"
| "shape (Nd []) = [0]"
| "shape (Nd (t # ts)) = Suc (length ts) # shape t"

text \<open>\<open>torch.as_tensor\<close> of a Python list of numbers: a one-dimensional tensor.\<close>

definition as_tensor :: "real list \<Rightarrow> tensor" where
  "as_tensor xs = Nd (map Sc xs)"

text \<open>
  \<open>torch.stack\<close>: a new leading dimension over tensors of one shape. It raises on
  an empty list and on tensors of different shapes.
\<close>

definition stack :: "tensor list \<Rightarrow> error + tensor" where
  "stack ts =
     (if ts = [] then Inl (RuntimeError ''stack expects a non-empty TensorList'')
      else if list_all (\<lambda>t. shape t = shape (hd ts)) ts then Inr (Nd ts)
      else Inl (RuntimeError ''stack expects each tensor to be equal size''))"

text \<open>
  Broadcasting. Two shapes are compatible when, aligned at their last dimension,
  each pair of sizes is equal or has a 1; the shorter shape is padded with 1 at the
  front.
\<close>

fun compatible :: "nat list \<Rightarrow> nat list \<Rightarrow> bool" where
  "compatible [] ns = True"
| "compatible (m # ms) [] = True"
| "compatible (m # ms) (n # ns) = ((m = n \<or> m = 1 \<or> n = 1) \<and> compatible ms ns)"

definition broadcastable :: "tensor \<Rightarrow> tensor \<Rightarrow> bool" where
  "broadcastable a b = compatible (rev (shape a)) (rev (shape b))"

function (sequential) bop :: "(real \<Rightarrow> real \<Rightarrow> real) \<Rightarrow> tensor \<Rightarrow> tensor \<Rightarrow> tensor" where
  "bop f (Sc x) (Sc y) = Sc (f x y)"
| "bop f (Sc x) (Nd bs) = Nd (map (bop f (Sc x)) bs)"
| "bop f (Nd as) (Sc y) = Nd (map (\<lambda>a. bop f a (Sc y)) as)"
| "bop f (Nd as) (Nd bs) =
     (if ndim (Nd as) < ndim (Nd bs) then Nd (map (bop f (Nd as)) bs)
      else if ndim (Nd bs) < ndim (Nd as) then Nd (map (\<lambda>a. bop f a (Nd bs)) as)
      else if length as = 1 then Nd (map (bop f (hd as)) bs)
      else if length bs = 1 then Nd (map (\<lambda>a. bop f a (hd bs)) as)
      else Nd (map (\<lambda>(a, b). bop f a b) (zip as bs)))"
  by pat_completeness auto
termination
proof -
  have mem: "size t < size (Nd ts)" if "t \<in> set ts" for t :: tensor and ts
    using that by (induction ts) auto
  have zp: "size a + size b < size (Nd as) + size (Nd bs)"
    if "(a, b) \<in> set (zip as bs)" for a b :: tensor and as bs
  proof -
    from that have "a \<in> set as" and "b \<in> set bs"
      by (auto dest: set_zip_leftD set_zip_rightD)
    then have "size a < size (Nd as)" and "size b < size (Nd bs)"
      using mem by blast+
    then show ?thesis by linarith
  qed
  have hd1: "size (hd ts) < size (Nd ts)" if "length ts = 1" for ts :: "tensor list"
    using that by (cases ts) auto
  show ?thesis
    apply (relation "measure (\<lambda>(f, a, b). size a + size b)")
    using mem hd1 zp apply (auto simp del: tensor.size simp: add_less_le_mono add_le_less_mono less_imp_le)
    done
qed


text \<open>Elementwise operations raise when the shapes cannot be broadcast together.\<close>

definition tsub :: "tensor \<Rightarrow> tensor \<Rightarrow> error + tensor" where
  "tsub a b =
     (if broadcastable a b then Inr (bop (\<lambda>x y. x - y) a b)
      else Inl (RuntimeError ''The size of tensor a must match the size of tensor b''))"

definition tmul :: "tensor \<Rightarrow> tensor \<Rightarrow> error + tensor" where
  "tmul a b =
     (if broadcastable a b then Inr (bop (\<lambda>x y. x * y) a b)
      else Inl (RuntimeError ''The size of tensor a must match the size of tensor b''))"

fun tmap :: "(real \<Rightarrow> real) \<Rightarrow> tensor \<Rightarrow> tensor" where
  "tmap f (Sc x) = Sc (f x)"
| "tmap f (Nd ts) = Nd (map (tmap f) ts)"

fun elems :: "tensor \<Rightarrow> real list" where
  "elems (Sc x) = [x]"
| "elems (Nd ts) = concat (map elems ts)"

text \<open>
  The result of \<open>mean\<close> and of the two loss functions: a zero-dimensional tensor
  holding a number, or not-a-number for the mean of a tensor without elements.
\<close>

datatype scalar = Val real | NaN

definition mean :: "tensor \<Rightarrow> scalar" where
  "mean t = (let xs = elems t in
             if xs = [] then NaN else Val (sum_list xs / real (length xs)))"

fun neg :: "scalar \<Rightarrow> scalar" where
  "neg (Val x) = Val (- x)"
| "neg NaN = NaN"

section \<open>Loss calculators\<close>

definition calculate_value_fn_loss :: "real list \<Rightarrow> tensor list \<Rightarrow> error + scalar" where
  "calculate_value_fn_loss epoch_action_returns epoch_state_value_estimates =
     (case stack epoch_state_value_estimates of
        Inl e \<Rightarrow> Inl e
      | Inr value_estimates \<Rightarrow>
          (let returns = as_tensor epoch_action_returns in
           case tsub value_estimates returns of
             Inl e \<Rightarrow> Inl e
           | Inr d \<Rightarrow> Inr (mean (tmap (\<lambda>x. x ^ 2) d))))"

definition calculate_policy_fn_loss :: "tensor \<Rightarrow> tensor \<Rightarrow> error + scalar" where
  "calculate_policy_fn_loss epoch_log_probability_actions epoch_action_rewards =
     (case tmul epoch_log_probability_actions epoch_action_rewards of
        Inl e \<Rightarrow> Inl e
      | Inr p \<Rightarrow> Inr (neg (mean p)))"

section \<open>Collaborators\<close>

text \<open>
  The environment, the two networks with their optimizers, and the categorical
  distribution are external. Each of their operations is a function on a world
  state \<open>'w\<close> (environment state, random source, parameters, gradient buffers)
  that either raises or returns its result with the new world. In the source the
  two models and optimizers are passed as arguments; here they live in the world
  and \<open>which\<close> names the one that is meant.
\<close>

datatype which = Policy_function | Value_function

record ('o, 'w) collab =
  gym_make :: "'w \<Rightarrow> error + 'w"
  manual_seed :: "int \<Rightarrow> 'w \<Rightarrow> error + 'w"
  env_seed :: "int \<Rightarrow> 'w \<Rightarrow> error + 'w"
  create_models :: "'w \<Rightarrow> error + 'w"
  env_reset :: "'w \<Rightarrow> error + 'o \<times> 'w"
  env_step :: "int \<Rightarrow> 'w \<Rightarrow> error + ('o \<times> real \<times> bool) \<times> 'w"
  policy_function_model :: "'o \<Rightarrow> 'w \<Rightarrow> error + tensor \<times> 'w"
  value_function_model :: "'o \<Rightarrow> 'w \<Rightarrow> error + tensor \<times> 'w"
  categorical_sample :: "tensor \<Rightarrow> 'w \<Rightarrow> error + int \<times> 'w"
  categorical_log_prob :: "tensor \<Rightarrow> int \<Rightarrow> 'w \<Rightarrow> error + tensor \<times> 'w"
  backward :: "which \<Rightarrow> scalar \<Rightarrow> 'w \<Rightarrow> error + 'w"
  optimizer_step :: "which \<Rightarrow> 'w \<Rightarrow> error + 'w"
  zero_grad :: "which \<Rightarrow> 'w \<Rightarrow> error + 'w"

section \<open>Distribution sampler\<close>

text \<open>A categorical distribution is represented by the logits that parameterise it.\<close>

definition get_policy ::
  "('o \<Rightarrow> 'w \<Rightarrow> error + tensor \<times> 'w) \<Rightarrow> 'o \<Rightarrow> 'w \<Rightarrow> error + tensor \<times> 'w" where
  "get_policy model observation w = model observation w"

definition get_action ::
  "('o, 'w) collab \<Rightarrow> tensor \<Rightarrow> 'w \<Rightarrow> error + (int \<times> tensor) \<times> 'w" where
  "get_action c policy w =
     (case categorical_sample c policy w of
        Inl e \<Rightarrow> Inl e
      | Inr (action_int, w1) \<Rightarrow>
          (case categorical_log_prob c policy action_int w1 of
             Inl e \<Rightarrow> Inl e
           | Inr (log_probability_action, w2) \<Rightarrow>
               Inr ((action_int, log_probability_action), w2)))"

section \<open>Episode roller\<close>

text \<open>
  The variables of the timestep loop: the current observation and the three lists
  \<open>rewards\<close>, \<open>state_value_estimates\<close>, \<open>log_probability_actions\<close>.
\<close>

type_synonym 'o vars = "'o \<times> real list \<times> tensor list \<times> tensor list"

text \<open>One pass through the body of \<open>while True\<close>; the flag is \<open>done\<close>.\<close>

definition episode_step ::
  "('o, 'w) collab \<Rightarrow> 'o vars \<Rightarrow> 'w \<Rightarrow> error + (bool \<times> 'o vars) \<times> 'w" where
  "episode_step c s w =
     (case s of (observation, rewards, state_value_estimates, log_probability_actions) \<Rightarrow>
     (case value_function_model c observation w of
        Inl e \<Rightarrow> Inl e
      | Inr (state_value_estimate, w1) \<Rightarrow>
     (case get_policy (policy_function_model c) observation w1 of
        Inl e \<Rightarrow> Inl e
      | Inr (policy, w2) \<Rightarrow>
     (case get_action c policy w2 of
        Inl e \<Rightarrow> Inl e
      | Inr ((action, log_probability_action), w3) \<Rightarrow>
     (case env_step c action w3 of
        Inl e \<Rightarrow> Inl e
      | Inr ((observation', reward, done), w4) \<Rightarrow>
          Inr ((done, (observation', rewards @ [reward],
                       state_value_estimates @ [state_value_estimate],
                       log_probability_actions @ [log_probability_action])), w4))))))"

text \<open>
  The loop has no bound of its own: with an environment that never reports
  \<open>done\<close> it does not return, which is the value \<open>None\<close>.
\<close>

partial_function (option) episode_loop ::
  "('o, 'w) collab \<Rightarrow> 'o vars \<Rightarrow> 'w \<Rightarrow> (error + 'o vars \<times> 'w) option" where
  "episode_loop c s w =
     (case episode_step c s w of
        Inl e \<Rightarrow> Some (Inl e)
      | Inr ((done, s'), w') \<Rightarrow>
          if done = True then Some (Inr (s', w')) else episode_loop c s' w')"

type_synonym episode = "real list \<times> tensor list \<times> tensor list \<times> real"

definition run_one_episode ::
  "('o, 'w) collab \<Rightarrow> 'w \<Rightarrow> (error + episode \<times> 'w) option" where
  "run_one_episode c w =
     (case env_reset c w of
        Inl e \<Rightarrow> Some (Inl e)
      | Inr (observation, w1) \<Rightarrow>
     (case episode_loop c (observation, [], [], []) w1 of
        None \<Rightarrow> None
      | Some (Inl e) \<Rightarrow> Some (Inl e)
      | Some (Inr ((observation', rewards, state_value_estimates, log_probability_actions), w2)) \<Rightarrow>
          (let episode_return = sum_list rewards;
               total_timesteps = length rewards;
               action_returns = replicate total_timesteps episode_return
           in Some (Inr ((action_returns, log_probability_actions,
                          state_value_estimates, episode_return), w2)))))"

section \<open>Epoch orchestrator\<close>

text \<open>
  The epoch's four accumulators: \<open>epoch_action_returns\<close>,
  \<open>epoch_log_probability_actions\<close>, \<open>epoch_state_value_estimates\<close>,
  \<open>epoch_episode_returns\<close>.
\<close>

type_synonym batch = "real list \<times> tensor list \<times> tensor list \<times> real list"

text \<open>\<open>for _ in range(n)\<close>, by the number of episodes still to run.\<close>

fun episodes_loop ::
  "nat \<Rightarrow> ('o, 'w) collab \<Rightarrow> batch \<Rightarrow> 'w \<Rightarrow> (error + batch \<times> 'w) option" where
  "episodes_loop 0 c b w = Some (Inr (b, w))"
| "episodes_loop (Suc n) c b w =
     (case b of (epoch_action_returns, epoch_log_probability_actions,
                 epoch_state_value_estimates, epoch_episode_returns) \<Rightarrow>
     (case run_one_episode c w of
        None \<Rightarrow> None
      | Some (Inl e) \<Rightarrow> Some (Inl e)
      | Some (Inr ((action_returns, log_probability_actions,
                    state_value_estimates, episode_return), w1)) \<Rightarrow>
          episodes_loop n c
            (epoch_action_returns @ action_returns,
             epoch_log_probability_actions @ log_probability_actions,
             epoch_state_value_estimates @ state_value_estimates,
             epoch_episode_returns @ [episode_return]) w1))"

text \<open>The two losses of an epoch batch, policy loss first.\<close>

definition epoch_losses :: "real list \<Rightarrow> tensor list \<Rightarrow> tensor list \<Rightarrow> error + scalar \<times> scalar" where
  "epoch_losses epoch_action_returns epoch_log_probability_actions epoch_state_value_estimates =
     (case stack epoch_log_probability_actions of
        Inl e \<Rightarrow> Inl e
      | Inr log_probabilities \<Rightarrow>
     (case calculate_policy_fn_loss log_probabilities (as_tensor epoch_action_returns) of
        Inl e \<Rightarrow> Inl e
      | Inr policy_function_loss \<Rightarrow>
     (case calculate_value_fn_loss epoch_action_returns epoch_state_value_estimates of
        Inl e \<Rightarrow> Inl e
      | Inr value_function_loss \<Rightarrow> Inr (policy_function_loss, value_function_loss))))"

text \<open>Stepping the weights and biases.\<close>

definition step_weights ::
  "('o, 'w) collab \<Rightarrow> scalar \<Rightarrow> scalar \<Rightarrow> 'w \<Rightarrow> error + 'w" where
  "step_weights c policy_function_loss value_function_loss w =
     (case backward c Value_function value_function_loss w of
        Inl e \<Rightarrow> Inl e
      | Inr w1 \<Rightarrow>
     (case optimizer_step c Value_function w1 of
        Inl e \<Rightarrow> Inl e
      | Inr w2 \<Rightarrow>
     (case backward c Policy_function policy_function_loss w2 of
        Inl e \<Rightarrow> Inl e
      | Inr w3 \<Rightarrow>
     (case optimizer_step c Policy_function w3 of
        Inl e \<Rightarrow> Inl e
      | Inr w4 \<Rightarrow>
     (case zero_grad c Value_function w4 of
        Inl e \<Rightarrow> Inl e
      | Inr w5 \<Rightarrow> zero_grad c Policy_function w5)))))"

text \<open>\<open>np.mean\<close> of a list of numbers.\<close>

definition np_mean :: "real list \<Rightarrow> scalar" where
  "np_mean xs = (if xs = [] then NaN else Val (sum_list xs / real (length xs)))"

definition train_one_epoch ::
  "('o, 'w) collab \<Rightarrow> 'w \<Rightarrow> (error + scalar \<times> 'w) option" where
  "train_one_epoch c w =
     (case episodes_loop 200 c ([], [], [], []) w of
        None \<Rightarrow> None
      | Some (Inl e) \<Rightarrow> Some (Inl e)
      | Some (Inr ((epoch_action_returns, epoch_log_probability_actions,
                    epoch_state_value_estimates, epoch_episode_returns), w1)) \<Rightarrow>
     (case epoch_losses epoch_action_returns epoch_log_probability_actions
             epoch_state_value_estimates of
        Inl e \<Rightarrow> Some (Inl e)
      | Inr (policy_function_loss, value_function_loss) \<Rightarrow>
     (case step_weights c policy_function_loss value_function_loss w1 of
        Inl e \<Rightarrow> Some (Inl e)
      | Inr w2 \<Rightarrow> Some (Inr (np_mean epoch_episode_returns, w2)))))"

section \<open>Training driver\<close>

text \<open>
  The line printed after an epoch is \<open>'epoch: %3d \t return: %.3f' % (epoch,
  average_return)\<close>. \<open>%3d\<close> writes the decimal digits padded with spaces on
  the left to three characters; \<open>%.3f\<close> writes the number rounded to three
  decimals, ties to even, with a minus sign for a negative number, and \<open>nan\<close> for
  not-a-number.
\<close>

fun digits :: "nat \<Rightarrow> string" where
  "digits n =
     (if n < 10 then [''0123456789'' ! n]
      else digits (n div 10) @ [''0123456789'' ! (n mod 10)])"

declare digits.simps [simp del]

definition fmt_3d :: "nat \<Rightarrow> string" where
  "fmt_3d n = (let s = digits n in replicate (3 - length s) (CHR '' '') @ s)"

definition round_half_even :: "real \<Rightarrow> int" where
  "round_half_even x =
     (let f = \<lfloor>x\<rfloor>; d = x - of_int f in
      if d < 1 / 2 then f
      else if 1 / 2 < d then f + 1
      else if even f then f else f + 1)"

fun fmt_3f :: "scalar \<Rightarrow> string" where
  "fmt_3f NaN = ''nan''"
| "fmt_3f (Val r) =
     (let n = nat (round_half_even (\<bar>r\<bar> * 1000));
          frac = digits (n mod 1000)
      in (if r < 0 then ''-'' else []) @ digits (n div 1000) @ ''.''
         @ replicate (3 - length frac) (CHR ''0'') @ frac)"

definition format_line :: "nat \<Rightarrow> scalar \<Rightarrow> string" where
  "format_line epoch average_return =
     ''epoch: '' @ fmt_3d epoch @ '' '' @ [CHR 0x09] @ '' return: '' @ fmt_3f average_return"

text \<open>
  \<open>for epoch in range(epochs)\<close>, by the number of epochs still to run. Standard
  output is the list of the texts printed so far, one \<open>print\<close> each; it survives
  an exception, so it is returned beside the outcome.
\<close>

fun epochs_loop ::
  "nat \<Rightarrow> ('o, 'w) collab \<Rightarrow> nat \<Rightarrow> string list \<Rightarrow> 'w \<Rightarrow> (string list \<times> (error + 'w)) option" where
  "epochs_loop 0 c epoch out w = Some (out, Inr w)"
| "epochs_loop (Suc n) c epoch out w =
     (case train_one_epoch c w of
        None \<Rightarrow> None
      | Some (Inl e) \<Rightarrow> Some (out, Inl e)
      | Some (Inr (average_return, w1)) \<Rightarrow>
          epochs_loop n c (Suc epoch) (out @ [format_line epoch average_return]) w1)"

text \<open>
  The driver up to the epoch loop: the environment is made, the random sources are
  seeded with 0, the two models and their optimizers are created.
\<close>

definition train_setup :: "('o, 'w) collab \<Rightarrow> 'w \<Rightarrow> error + 'w" where
  "train_setup c w =
     (case gym_make c w of
        Inl e \<Rightarrow> Inl e
      | Inr w1 \<Rightarrow>
     (case manual_seed c 0 w1 of
        Inl e \<Rightarrow> Inl e
      | Inr w2 \<Rightarrow>
     (case env_seed c 0 w2 of
        Inl e \<Rightarrow> Inl e
      | Inr w3 \<Rightarrow> create_models c w3)))"

definition train ::
  "('o, 'w) collab \<Rightarrow> int \<Rightarrow> 'w \<Rightarrow> (string list \<times> (error + 'w)) option" where
  "train c epochs w =
     (case train_setup c w of
        Inl e \<Rightarrow> Some ([], Inl e)
      | Inr w1 \<Rightarrow> epochs_loop (nat epochs) c 0 [] w1)"

section \<open>Observing the collaborators\<close>

text \<open>
  To speak about the order of the calls, any collaborators can be wrapped so that
  every call that returns is appended to a trace kept beside the world.
\<close>

datatype event =
    GymMake | ManualSeed int | EnvSeed int | CreateModels
  | EnvReset | EnvStep int real bool
  | PolicyForward | ValueForward | Sample | LogProb
  | Backward which scalar | OptimizerStep which | ZeroGrad which

definition log_call ::
  "event \<Rightarrow> ('w \<Rightarrow> error + 'w) \<Rightarrow> event list \<times> 'w \<Rightarrow> error + event list \<times> 'w" where
  "log_call ev f tw =
     (case f (snd tw) of Inl e \<Rightarrow> Inl e | Inr w' \<Rightarrow> Inr (fst tw @ [ev], w'))"

definition log_result ::
  "('a \<Rightarrow> event) \<Rightarrow> ('w \<Rightarrow> error + 'a \<times> 'w) \<Rightarrow> event list \<times> 'w
     \<Rightarrow> error + 'a \<times> event list \<times> 'w" where
  "log_result ev f tw =
     (case f (snd tw) of Inl e \<Rightarrow> Inl e | Inr (x, w') \<Rightarrow> Inr (x, fst tw @ [ev x], w'))"

definition logged :: "('o, 'w) collab \<Rightarrow> ('o, event list \<times> 'w) collab" where
  "logged c =
     \<lparr> gym_make = log_call GymMake (gym_make c),
       manual_seed = (\<lambda>seed. log_call (ManualSeed seed) (manual_seed c seed)),
       env_seed = (\<lambda>seed. log_call (EnvSeed seed) (env_seed c seed)),
       create_models = log_call CreateModels (create_models c),
       env_reset = log_result (\<lambda>x. EnvReset) (env_reset c),
       env_step = (\<lambda>action. log_result (\<lambda>(observation, reward, done). EnvStep action reward done)
                                (env_step c action)),
       policy_function_model = (\<lambda>observation. log_result (\<lambda>x. PolicyForward)
                                (policy_function_model c observation)),
       value_function_model = (\<lambda>observation. log_result (\<lambda>x. ValueForward)
                                (value_function_model c observation)),
       categorical_sample = (\<lambda>policy. log_result (\<lambda>x. Sample) (categorical_sample c policy)),
       categorical_log_prob = (\<lambda>policy action. log_result (\<lambda>x. LogProb)
                                (categorical_log_prob c policy action)),
       backward = (\<lambda>k loss. log_call (Backward k loss) (backward c k loss)),
       optimizer_step = (\<lambda>k. log_call (OptimizerStep k) (optimizer_step c k)),
       zero_grad = (\<lambda>k. log_call (ZeroGrad k) (zero_grad c k)) \<rparr>"

fun update_event :: "event \<Rightarrow> bool" where
  "update_event (Backward k loss) = True"
| "update_event (OptimizerStep k) = True"
| "update_event (ZeroGrad k) = True"
| "update_event ev = False"

section \<open>A small environment\<close>

text \<open>
  Collaborators to run the program on: the world is the number of timesteps left in
  the episode, every episode lasts \<open>n\<close> timesteps (one, when \<open>n = 0\<close>) with
  reward 1 each, there are two equally likely actions, and the value model answers
  0 in shape (1). With \<open>bad = Some k\<close> the environment raises when asked to step
  with \<open>k\<close> timesteps left.
\<close>

definition toy :: "nat \<Rightarrow> nat option \<Rightarrow> (unit, nat) collab" where
  "toy n bad =
     \<lparr> gym_make = Inr,
       manual_seed = (\<lambda>seed. Inr),
       env_seed = (\<lambda>seed. Inr),
       create_models = Inr,
       env_reset = (\<lambda>w. Inr ((), n)),
       env_step = (\<lambda>action w. if bad = Some w then Inl (External ''step'')
                                else Inr (((), 1, w \<le> 1), w - 1)),
       policy_function_model = (\<lambda>observation w. Inr (Nd [Sc 0, Sc 0], w)),
       value_function_model = (\<lambda>observation w. Inr (Nd [Sc 0], w)),
       categorical_sample = (\<lambda>policy w. Inr (0, w)),
       categorical_log_prob = (\<lambda>policy action w. Inr (Sc (ln (1 / 2)), w)),
       backward = (\<lambda>k loss. Inr),
       optimizer_step = (\<lambda>k. Inr),
       zero_grad = (\<lambda>k. Inr) \<rparr>"

section \<open>Notions used to state the properties\<close>

text \<open>The four components of what \<open>run_one_episode\<close> returns.\<close>

definition ep_action_returns :: "episode \<Rightarrow> real list" where
  "ep_action_returns ep = fst ep"

definition ep_log_probabilities :: "episode \<Rightarrow> tensor list" where
  "ep_log_probabilities ep = fst (snd ep)"

definition ep_value_estimates :: "episode \<Rightarrow> tensor list" where
  "ep_value_estimates ep = fst (snd (snd ep))"

definition ep_return :: "episode \<Rightarrow> real" where
  "ep_return ep = snd (snd (snd ep))"

text \<open>
  In the words of the specification: \<open>n\<close> episodes run by the episode roller one
  after the other, each in the world the one before left, and their results in
  episode order. This is what the accumulating loop \<open>episodes_loop\<close> is compared
  with.
\<close>

fun episodes_in_sequence ::
  "nat \<Rightarrow> ('o, 'w) collab \<Rightarrow> 'w \<Rightarrow> (error + episode list \<times> 'w) option" where
  "episodes_in_sequence 0 c w = Some (Inr ([], w))"
| "episodes_in_sequence (Suc n) c w =
     (case run_one_episode c w of
        None \<Rightarrow> None
      | Some (Inl e) \<Rightarrow> Some (Inl e)
      | Some (Inr (ep, w1)) \<Rightarrow>
     (case episodes_in_sequence n c w1 of
        None \<Rightarrow> None
      | Some (Inl e) \<Rightarrow> Some (Inl e)
      | Some (Inr (eps, w2)) \<Rightarrow> Some (Inr (ep # eps, w2))))"

text \<open>
  In the words of the specification: a policy loss with the critic's estimate as a
  baseline, the negated mean of log-probability times (return minus estimate).
  This is what the policy loss of \<open>epoch_losses\<close> is compared with.
\<close>

definition spec_baseline_policy_loss :: "real list \<Rightarrow> real list \<Rightarrow> real list \<Rightarrow> real" where
  "spec_baseline_policy_loss returns log_probabilities estimates =
     - (sum_list (map (\<lambda>(l, r, v). l * (r - v)) (zip log_probabilities (zip returns estimates)))
        / real (length log_probabilities))"

text \<open>
  In the words of the specification, one timestep of an episode: the value model
  is asked for its estimate of the current observation, the policy model for its
  scores, an action is sampled with its log-probability, and the environment is
  stepped with that action. What the timestep records is the trajectory step:
  the reward the environment returned, the log-probability, the estimate.
\<close>

type_synonym trajectory_step = "real \<times> tensor \<times> tensor"

definition step_reward :: "trajectory_step \<Rightarrow> real" where
  "step_reward st = fst st"

definition step_log_probability :: "trajectory_step \<Rightarrow> tensor" where
  "step_log_probability st = fst (snd st)"

definition step_estimate :: "trajectory_step \<Rightarrow> tensor" where
  "step_estimate st = snd (snd st)"

definition timestep ::
  "('o, 'w) collab \<Rightarrow> 'o \<Rightarrow> 'w \<Rightarrow> error + (trajectory_step \<times> 'o \<times> bool) \<times> 'w" where
  "timestep c observation w =
     (case value_function_model c observation w of
        Inl e \<Rightarrow> Inl e
      | Inr (estimate, w1) \<Rightarrow>
     (case policy_function_model c observation w1 of
        Inl e \<Rightarrow> Inl e
      | Inr (logits, w2) \<Rightarrow>
     (case categorical_sample c logits w2 of
        Inl e \<Rightarrow> Inl e
      | Inr (action, w3) \<Rightarrow>
     (case categorical_log_prob c logits action w3 of
        Inl e \<Rightarrow> Inl e
      | Inr (lp, w4) \<Rightarrow>
     (case env_step c action w4 of
        Inl e \<Rightarrow> Inl e
      | Inr ((observation', reward, done), w5) \<Rightarrow>
          Inr (((reward, lp, estimate), observation', done), w5))))))"

text \<open>
  The trajectory of an episode: the steps recorded from \<open>observation\<close> in
  world \<open>w\<close> up to and including the first timestep at which the environment
  reports termination, and the world \<open>w'\<close> left then. An environment that
  never terminates, or a collaborator that raises, has no trajectory.
\<close>

inductive rollout ::
  "('o, 'w) collab \<Rightarrow> 'o \<Rightarrow> 'w \<Rightarrow> trajectory_step list \<Rightarrow> 'w \<Rightarrow> bool" where
  finished:
    "timestep c observation w = Inr ((st, observation', True), w') \<Longrightarrow>
     rollout c observation w [st] w'"
| continued:
    "timestep c observation w = Inr ((st, observation', False), w1) \<Longrightarrow>
     rollout c observation' w1 steps w' \<Longrightarrow>
     rollout c observation w (st # steps) w'"

text \<open>
  Calls made one after the other, each in the world the one before left, up to the
  first that raises. The update of an epoch, in the words of the specification:
  the gradient of the value loss is computed and applied to the value model first,
  then the gradient of the policy loss is computed and applied to the policy model,
  and the gradient buffers of both are cleared after both updates.
\<close>

fun calls_in_order :: "('w \<Rightarrow> error + 'w) list \<Rightarrow> 'w \<Rightarrow> error + 'w" where
  "calls_in_order [] w = Inr w"
| "calls_in_order (f # fs) w =
     (case f w of Inl e \<Rightarrow> Inl e | Inr w' \<Rightarrow> calls_in_order fs w')"

definition update_calls ::
  "('o, 'w) collab \<Rightarrow> scalar \<Rightarrow> scalar \<Rightarrow> ('w \<Rightarrow> error + 'w) list" where
  "update_calls c policy_loss value_loss =
     [backward c Value_function value_loss, optimizer_step c Value_function,
      backward c Policy_function policy_loss, optimizer_step c Policy_function,
      zero_grad c Value_function, zero_grad c Policy_function]"

text \<open>
  The two losses of the batch that a list of episodes makes: the policy loss of all
  its log-probabilities and returns, and the value loss of all its estimates and
  returns, each list in episode order.
\<close>

definition batch_losses :: "episode list \<Rightarrow> scalar \<Rightarrow> scalar \<Rightarrow> bool" where
  "batch_losses eps policy_loss value_loss \<longleftrightarrow>
     (case stack (concat (map ep_log_probabilities eps)) of
        Inl e \<Rightarrow> False
      | Inr log_probabilities \<Rightarrow>
          calculate_policy_fn_loss log_probabilities
            (as_tensor (concat (map ep_action_returns eps))) = Inr policy_loss \<and>
          calculate_value_fn_loss (concat (map ep_action_returns eps))
            (concat (map ep_value_estimates eps)) = Inr value_loss)"

text \<open>
  The variables and world after \<open>k\<close> passes through the timestep loop, none of
  which raised or was the last.
\<close>

fun after_steps :: "nat \<Rightarrow> ('o, 'w) collab \<Rightarrow> 'o vars \<Rightarrow> 'w \<Rightarrow> ('o vars \<times> 'w) option" where
  "after_steps 0 c s w = Some (s, w)"
| "after_steps (Suc k) c s w =
     (case episode_step c s w of
        Inl e \<Rightarrow> None
      | Inr ((done, s'), w') \<Rightarrow> if done then None else after_steps k c s' w')"

text \<open>
  Some collaborator called in the timestep that starts with \<open>observation\<close> in
  world \<open>w\<close> raises \<open>e\<close>: the value model, the policy model, the distribution or
  the environment, whichever is the first to raise.
\<close>

definition timestep_raises :: "('o, 'w) collab \<Rightarrow> 'o \<Rightarrow> 'w \<Rightarrow> error \<Rightarrow> bool" where
  "timestep_raises c observation w e =
     (case value_function_model c observation w of
        Inl e' \<Rightarrow> e' = e
      | Inr (estimate, w1) \<Rightarrow>
     (case policy_function_model c observation w1 of
        Inl e' \<Rightarrow> e' = e
      | Inr (logits, w2) \<Rightarrow>
     (case categorical_sample c logits w2 of
        Inl e' \<Rightarrow> e' = e
      | Inr (action, w3) \<Rightarrow>
     (case categorical_log_prob c logits action w3 of
        Inl e' \<Rightarrow> e' = e
      | Inr (lp, w4) \<Rightarrow>
     (case env_step c action w4 of
        Inl e' \<Rightarrow> e' = e
      | Inr r \<Rightarrow> False)))))"


text \<open>
  A collaborator raises \<open>e\<close> during the episode that starts in world \<open>w\<close>: the
  environment at the reset, or some collaborator in a timestep that the loop
  reaches.
\<close>

inductive episode_raises :: "('o, 'w) collab \<Rightarrow> 'w \<Rightarrow> error \<Rightarrow> bool" where
  at_reset: "env_reset c w = Inl e \<Longrightarrow> episode_raises c w e"
| at_timestep:
    "env_reset c w = Inr (observation, w1) \<Longrightarrow>
     after_steps k c (observation, [], [], []) w1 = Some (s, w2) \<Longrightarrow>
     timestep_raises c (fst s) w2 e \<Longrightarrow> episode_raises c w e"

text \<open>
  A collaborator raises \<open>e\<close> during the epoch that starts in world \<open>w\<close>: in one
  of its 200 episodes, after those before it have returned, or in one of the calls
  of the update, after the 200 episodes have returned and the losses of their batch
  are computed.
\<close>

inductive epoch_raises :: "('o, 'w) collab \<Rightarrow> 'w \<Rightarrow> error \<Rightarrow> bool" where
  in_episode:
    "j < 200 \<Longrightarrow> episodes_loop j c ([], [], [], []) w = Some (Inr (b, w1)) \<Longrightarrow>
     episode_raises c w1 e \<Longrightarrow> epoch_raises c w e"
| in_update:
    "episodes_in_sequence 200 c w = Some (Inr (eps, w1)) \<Longrightarrow>
     batch_losses eps policy_loss value_loss \<Longrightarrow>
     calls_in_order (update_calls c policy_loss value_loss) w1 = Inl e \<Longrightarrow>
     epoch_raises c w e"

text \<open>
  A collaborator raises \<open>e\<close> during a run of the driver, in the epoch that follows
  \<open>m\<close> epochs that returned and printed \<open>out\<close>.
\<close>

inductive run_raises :: "('o, 'w) collab \<Rightarrow> int \<Rightarrow> 'w \<Rightarrow> string list \<Rightarrow> error \<Rightarrow> bool" where
  in_epoch:
    "train_setup c w = Inr w0 \<Longrightarrow> m < nat epochs \<Longrightarrow>
     epochs_loop m c 0 [] w0 = Some (out, Inr w1) \<Longrightarrow>
     epoch_raises c w1 e \<Longrightarrow> run_raises c epochs w out e"



section \<open>Libraries with a state of their own\<close>

text \<open>
  For the question which state a run depends on, the world is split into the parts
  that the libraries keep: the environment without its random source, the random
  source of the environment, torch's global random source, the parameters of the
  two models, and everything that gradient computation keeps (the recorded graph,
  the gradient buffers, the state of the optimizers), called the tape here.
\<close>

record ('e, 'r, 'g, 'p, 'x) world =
  env_core :: 'e
  env_rng :: 'r
  torch_rng :: 'g
  params :: 'p
  tape :: 'x

text \<open>
  Each library operation as a function of the parts it reads. Making the
  environment and seeding a random source do not read the state they replace; a
  forward pass and a log-probability read the parameters and add to the tape
  without reading it; only the backward passes and the optimizers read the tape.
\<close>

record ('o, 'e, 'r, 'g, 'p, 'x) libraries =
  lib_make :: "error + 'e"
  lib_seed_torch :: "int \<Rightarrow> 'g"
  lib_seed_env :: "int \<Rightarrow> 'r"
  lib_create :: "'e \<Rightarrow> 'g \<Rightarrow> error + ('p \<times> 'x) \<times> 'g"
  lib_reset :: "'e \<Rightarrow> 'r \<Rightarrow> error + 'o \<times> 'e \<times> 'r"
  lib_step :: "int \<Rightarrow> 'e \<Rightarrow> 'r \<Rightarrow> error + ('o \<times> real \<times> bool) \<times> 'e \<times> 'r"
  lib_policy :: "'o \<Rightarrow> 'p \<Rightarrow> error + tensor \<times> ('x \<Rightarrow> 'x)"
  lib_value :: "'o \<Rightarrow> 'p \<Rightarrow> error + tensor \<times> ('x \<Rightarrow> 'x)"
  lib_sample :: "tensor \<Rightarrow> 'g \<Rightarrow> error + int \<times> 'g"
  lib_log_prob :: "tensor \<Rightarrow> int \<Rightarrow> error + tensor \<times> ('x \<Rightarrow> 'x)"
  lib_backward :: "which \<Rightarrow> scalar \<Rightarrow> 'p \<Rightarrow> 'x \<Rightarrow> error + 'x"
  lib_optimizer_step :: "which \<Rightarrow> 'p \<Rightarrow> 'x \<Rightarrow> error + 'p \<times> 'x"
  lib_zero_grad :: "which \<Rightarrow> 'x \<Rightarrow> error + 'x"

definition assemble ::
  "('o, 'e, 'r, 'g, 'p, 'x) libraries \<Rightarrow> ('o, ('e, 'r, 'g, 'p, 'x) world) collab" where
  "assemble L =
     \<lparr> gym_make = (\<lambda>w. case lib_make L of
                          Inl e \<Rightarrow> Inl e
                        | Inr made \<Rightarrow> Inr (w\<lparr>env_core := made\<rparr>)),
       manual_seed = (\<lambda>seed w. Inr (w\<lparr>torch_rng := lib_seed_torch L seed\<rparr>)),
       env_seed = (\<lambda>seed w. Inr (w\<lparr>env_rng := lib_seed_env L seed\<rparr>)),
       create_models = (\<lambda>w. case lib_create L (env_core w) (torch_rng w) of
                               Inl e \<Rightarrow> Inl e
                             | Inr ((p, x), g) \<Rightarrow> Inr (w\<lparr>torch_rng := g, params := p, tape := x\<rparr>)),
       env_reset = (\<lambda>w. case lib_reset L (env_core w) (env_rng w) of
                           Inl e \<Rightarrow> Inl e
                         | Inr (observation, core, r) \<Rightarrow>
                             Inr (observation, w\<lparr>env_core := core, env_rng := r\<rparr>)),
       env_step = (\<lambda>action w. case lib_step L action (env_core w) (env_rng w) of
                                 Inl e \<Rightarrow> Inl e
                               | Inr (result, core, r) \<Rightarrow>
                                   Inr (result, w\<lparr>env_core := core, env_rng := r\<rparr>)),
       policy_function_model = (\<lambda>observation w. case lib_policy L observation (params w) of
                                 Inl e \<Rightarrow> Inl e
                               | Inr (logits, rec) \<Rightarrow> Inr (logits, w\<lparr>tape := rec (tape w)\<rparr>)),
       value_function_model = (\<lambda>observation w. case lib_value L observation (params w) of
                                 Inl e \<Rightarrow> Inl e
                               | Inr (estimate, rec) \<Rightarrow> Inr (estimate, w\<lparr>tape := rec (tape w)\<rparr>)),
       categorical_sample = (\<lambda>policy w. case lib_sample L policy (torch_rng w) of
                                 Inl e \<Rightarrow> Inl e
                               | Inr (action, g) \<Rightarrow> Inr (action, w\<lparr>torch_rng := g\<rparr>)),
       categorical_log_prob = (\<lambda>policy action w. case lib_log_prob L policy action of
                                 Inl e \<Rightarrow> Inl e
                               | Inr (lp, rec) \<Rightarrow> Inr (lp, w\<lparr>tape := rec (tape w)\<rparr>)),
       backward = (\<lambda>k loss w. case lib_backward L k loss (params w) (tape w) of
                                 Inl e \<Rightarrow> Inl e
                               | Inr x \<Rightarrow> Inr (w\<lparr>tape := x\<rparr>)),
       optimizer_step = (\<lambda>k w. case lib_optimizer_step L k (params w) (tape w) of
                                 Inl e \<Rightarrow> Inl e
                               | Inr (p, x) \<Rightarrow> Inr (w\<lparr>params := p, tape := x\<rparr>)),
       zero_grad = (\<lambda>k w. case lib_zero_grad L k (tape w) of
                                 Inl e \<Rightarrow> Inl e
                               | Inr x \<Rightarrow> Inr (w\<lparr>tape := x\<rparr>)) \<rparr>"

text \<open>
  Two runs of a call agree, for a relation \<open>R\<close> between the worlds they start
  from: from worlds that \<open>R\<close> relates, when the first raises the second raises
  the same error, and when the first returns the second returns the same result, in
  worlds that \<open>R\<close> relates again.
\<close>

definition agree :: "('w \<Rightarrow> 'w \<Rightarrow> bool) \<Rightarrow> ('w \<Rightarrow> error + 'a \<times> 'w) \<Rightarrow> bool" where
  "agree R f \<longleftrightarrow>
     (\<forall>w1 w2. R w1 w2 \<longrightarrow>
        (case f w1 of
           Inl e \<Rightarrow> f w2 = Inl e
         | Inr (a, w1') \<Rightarrow> (\<exists>w2'. f w2 = Inr (a, w2') \<and> R w1' w2')))"

text \<open>
  The calls of an episode agree: the reset and the step of the environment, the
  two models, and the sampling and the log-probability of the distribution. Nothing
  is asked of the backward passes and the optimizers.
\<close>

definition episode_calls_agree :: "('w \<Rightarrow> 'w \<Rightarrow> bool) \<Rightarrow> ('o, 'w) collab \<Rightarrow> bool" where
  "episode_calls_agree R c \<longleftrightarrow>
     agree R (env_reset c) \<and>
     (\<forall>observation. agree R (value_function_model c observation)) \<and>
     (\<forall>observation. agree R (policy_function_model c observation)) \<and>
     (\<forall>logits. agree R (categorical_sample c logits)) \<and>
     (\<forall>logits action. agree R (categorical_log_prob c logits action)) \<and>
     (\<forall>action. agree R (env_step c action))"

text \<open>
  Two worlds with the same seeded state and parameters: they agree on everything but
  the tape.
\<close>

definition same_seed_and_parameters ::
  "('e, 'r, 'g, 'p, 'x) world \<Rightarrow> ('e, 'r, 'g, 'p, 'x) world \<Rightarrow> bool" where
  "same_seed_and_parameters w1 w2 \<longleftrightarrow>
     env_core w1 = env_core w2 \<and> env_rng w1 = env_rng w2 \<and>
     torch_rng w1 = torch_rng w2 \<and> params w1 = params w2"

text \<open>
  Libraries to run the program on, in which every part of the world matters. The
  random source of torch is a bit that each sample flips; the action sampled is
  that bit when the first score is positive and the other action when it is not, so
  it depends on the seed and on the parameter. The random bit of the environment
  decides at each reset whether the episode has two or four timesteps, and flips.
  The reward is the action times the number of timesteps left. The parameter is a
  number, which the scores and the estimate show and the policy optimizer negates.
  A backward pass raises when the tape is empty.
\<close>

definition cycle_libraries :: "(unit, nat, nat, nat, real, nat) libraries" where
  "cycle_libraries =
     \<lparr> lib_make = Inr 0,
       lib_seed_torch = (\<lambda>seed. nat seed mod 2),
       lib_seed_env = (\<lambda>seed. nat seed mod 2),
       lib_create = (\<lambda>core g. Inr ((1 + real g, 1), g)),
       lib_reset = (\<lambda>core r. Inr ((), 2 + 2 * r, 1 - r)),
       lib_step = (\<lambda>action core r.
                     Inr (((), real_of_int action * real core, core \<le> 1), core - 1, r)),
       lib_policy = (\<lambda>observation p. Inr (Nd [Sc p, Sc (- p)], \<lambda>x. x)),
       lib_value = (\<lambda>observation p. Inr (Nd [Sc p], \<lambda>x. x)),
       lib_sample = (\<lambda>logits g.
                       Inr (case logits of
                              Nd (Sc a # rest) \<Rightarrow> if 0 < a then int g else 1 - int g
                            | other \<Rightarrow> int g,
                            1 - g)),
       lib_log_prob = (\<lambda>logits action. Inr (Sc (- 1 - real_of_int action), \<lambda>x. x)),
       lib_backward = (\<lambda>k loss p x. if x = 0 then Inl (External ''no graph'') else Inr (Suc x)),
       lib_optimizer_step = (\<lambda>k p x. Inr (case k of Policy_function \<Rightarrow> - p
                                                 | Value_function \<Rightarrow> p, x)),
       lib_zero_grad = (\<lambda>k x. Inr x) \<rparr>"

section \<open>Properties of the tensor operations\<close>

lemma ndim_vec: "ndim (Nd (map Sc xs)) = 1"
  by (cases xs) simp_all

lemma shape_vec: "shape (Nd (map Sc xs)) = [length xs]"
  by (cases xs) simp_all

lemma bop_vec:
  "length xs = length ys \<Longrightarrow>
   bop f (Nd (map Sc xs)) (Nd (map Sc ys)) = Nd (map (\<lambda>(x, y). Sc (f x y)) (zip xs ys))"
proof -
  assume len: "length xs = length ys"
  have z: "map (\<lambda>(a, b). bop f a b) (zip (map Sc xs) (map Sc ys)) = map (\<lambda>(x, y). Sc (f x y)) (zip xs ys)"
    by (auto simp: zip_map_map)
  show ?thesis
  proof (cases "length xs = 1")
    case True
    then obtain x where x: "xs = [x]" by (cases xs) auto
    with len obtain y where y: "ys = [y]" by (cases ys) auto
    show ?thesis by (simp add: x y)
  next
    case False
    with len have "length ys \<noteq> 1" by simp
    with False show ?thesis using z by (simp add: ndim_vec del: ndim.simps)
  qed
qed

lemma elems_vec: "elems (Nd (map f xs)) = concat (map (\<lambda>x. elems (f x)) xs)"
  by (simp add: comp_def)

lemma concat_single: "concat (map (\<lambda>x. [g x]) xs) = map g xs"
  by (induction xs) simp_all

subsection \<open>The policy loss\<close>

lemma policy_loss_vectors:
  assumes "length lps = length rs" and "lps \<noteq> []"
  shows "calculate_policy_fn_loss (as_tensor lps) (as_tensor rs) =
         Inr (Val (- (sum_list (map (\<lambda>(l, r). l * r) (zip lps rs)) / real (length lps))))"
proof -
  have b: "broadcastable (as_tensor lps) (as_tensor rs)"
    using assms by (simp add: broadcastable_def as_tensor_def shape_vec)
  have e: "elems (Nd (map (\<lambda>(x, y). Sc (x * y)) (zip lps rs))) = map (\<lambda>(l, r). l * r) (zip lps rs)"
    by (simp add: comp_def case_prod_unfold concat_single)
  have ne: "zip lps rs \<noteq> []" using assms by (cases lps; cases rs) auto
  have "tmul (as_tensor lps) (as_tensor rs) = Inr (Nd (map (\<lambda>(x, y). Sc (x * y)) (zip lps rs)))"
    using b assms(1) by (simp add: tmul_def) (simp add: as_tensor_def bop_vec del: bop.simps)
  moreover have "mean (Nd (map (\<lambda>(x, y). Sc (x * y)) (zip lps rs))) =
      Val (sum_list (map (\<lambda>(l, r). l * r) (zip lps rs)) / real (length lps))"
    unfolding mean_def e using ne assms(1) by (simp add: Let_def)
  ultimately show ?thesis
    by (simp add: calculate_policy_fn_loss_def)
qed

text \<open>
  Claim C3. For every non-empty batch of log-probabilities and equally many returns,
  the policy loss is the negated arithmetic mean, over all timesteps of the batch,
  of log-probability times return: one mean over the whole batch, neither a sum nor
  a mean per episode. At the single-timestep batch with log-probability -0.5 and
  return 2.0 it is 1.0 (the witness).
\<close>

theorem policy_loss_negated_batch_mean:
  assumes "length lps = length rs" and "lps \<noteq> []"
  shows "calculate_policy_fn_loss (as_tensor lps) (as_tensor rs) =
         Inr (Val (- (sum_list (map (\<lambda>(l, r). l * r) (zip lps rs)) / real (length lps))))"
  using assms by (rule policy_loss_vectors)

theorem policy_loss_negated_batch_mean_witness:
  "length [- 1 / 2 :: real] = length [2 :: real] \<and> [- 1 / 2 :: real] \<noteq> [] \<and>
   calculate_policy_fn_loss (as_tensor [- 1 / 2]) (as_tensor [2]) = Inr (Val 1)"
  using policy_loss_negated_batch_mean [of "[- 1 / 2]" "[2]"] by simp

subsection \<open>The value loss\<close>

text \<open>
  The value model is built with one output, so each of its estimates is a tensor
  of shape (1). Stacking n of them gives shape (n, 1); the returns have shape (n);
  the subtraction broadcasts the two to (n, n), and the mean runs over all pairs of
  an estimate and a return.
\<close>

lemma stack_same_shape:
  "ts \<noteq> [] \<Longrightarrow> list_all (\<lambda>t. shape t = sh) ts \<Longrightarrow> stack ts = Inr (Nd ts)"
  by (cases ts) (auto simp: stack_def list_all_iff)

lemma bop_row: "bop f (Nd [Sc v]) (Nd (map Sc rs)) = Nd (map (\<lambda>r. Sc (f v r)) rs)"
  by (simp add: ndim_vec del: ndim.simps) (simp add: ndim_vec)

lemma ndim_col: "vs \<noteq> [] \<Longrightarrow> ndim (Nd (map (\<lambda>v. Nd [Sc v]) vs)) = 2"
  by (cases vs) simp_all

lemma shape_col: "vs \<noteq> [] \<Longrightarrow> shape (Nd (map (\<lambda>v. Nd [Sc v]) vs)) = [length vs, 1]"
  by (cases vs) simp_all

lemma bop_col:
  assumes "vs \<noteq> []"
  shows "bop f (Nd (map (\<lambda>v. Nd [Sc v]) vs)) (Nd (map Sc rs)) =
         Nd (map (\<lambda>v. Nd (map (\<lambda>r. Sc (f v r)) rs)) vs)"
proof -
  have "ndim (Nd (map Sc rs)) < ndim (Nd (map (\<lambda>v. Nd [Sc v]) vs))"
    using assms by (simp add: ndim_col ndim_vec del: ndim.simps)
  then have "bop f (Nd (map (\<lambda>v. Nd [Sc v]) vs)) (Nd (map Sc rs)) =
             Nd (map (\<lambda>a. bop f a (Nd (map Sc rs))) (map (\<lambda>v. Nd [Sc v]) vs))"
    by (simp del: ndim.simps)
  also have "\<dots> = Nd (map (\<lambda>v. Nd (map (\<lambda>r. Sc (f v r)) rs)) vs)"
    by (simp add: bop_row comp_def del: bop.simps)
  finally show ?thesis .
qed

lemma sum_list_concat_rows:
  "sum_list (concat (map (\<lambda>v. map (g v) rs) vs)) = (\<Sum>v\<leftarrow>vs. \<Sum>r\<leftarrow>rs. g v r)"
  by (induction vs) simp_all

lemma length_concat_rows:
  "length (concat (map (\<lambda>v. map (g v) rs) vs)) = length vs * length rs"
  by (induction vs) simp_all

lemma value_loss_columns:
  assumes "vs \<noteq> []" and "rs \<noteq> []"
  shows "calculate_value_fn_loss rs (map (\<lambda>v. Nd [Sc v]) vs) =
         Inr (Val ((\<Sum>v\<leftarrow>vs. \<Sum>r\<leftarrow>rs. (v - r) ^ 2) / real (length vs * length rs)))"
proof -
  let ?col = "\<lambda>v::real. Nd [Sc v]"
  have st: "stack (map ?col vs) = Inr (Nd (map ?col vs))"
    using assms(1) by (intro stack_same_shape [where sh = "[1]"]) (simp_all add: list_all_iff)
  have bc: "broadcastable (Nd (map ?col vs)) (as_tensor rs)"
    using assms(1) by (simp add: broadcastable_def as_tensor_def shape_col shape_vec)
  have sub: "tsub (Nd (map ?col vs)) (as_tensor rs) = Inr (Nd (map (\<lambda>v. Nd (map (\<lambda>r. Sc (v - r)) rs)) vs))"
    using bc by (simp add: tsub_def) (simp add: as_tensor_def bop_col [OF assms(1)] del: bop.simps)
  have el: "elems (tmap (\<lambda>x. x ^ 2) (Nd (map (\<lambda>v. Nd (map (\<lambda>r. Sc (v - r)) rs)) vs))) =
            concat (map (\<lambda>v. map (\<lambda>r. (v - r) ^ 2) rs) vs)"
    by (simp add: comp_def concat_single)
  have ne: "concat (map (\<lambda>v. map (\<lambda>r. (v - r) ^ 2) rs) vs) \<noteq> []"
    using assms by (cases vs; cases rs) auto
  have "mean (tmap (\<lambda>x. x ^ 2) (Nd (map (\<lambda>v. Nd (map (\<lambda>r. Sc (v - r)) rs)) vs))) =
        Val ((\<Sum>v\<leftarrow>vs. \<Sum>r\<leftarrow>rs. (v - r) ^ 2) / real (length vs * length rs))"
    unfolding mean_def el Let_def using ne
    by (simp add: sum_list_concat_rows length_concat_rows del: of_nat_mult)
  then show ?thesis
    by (simp add: calculate_value_fn_loss_def st sub del: tmap.simps)
qed

text \<open>With zero-dimensional estimates the same function is the mean squared error.\<close>

lemma value_loss_scalars:
  assumes "length vs = length rs" and "vs \<noteq> []"
  shows "calculate_value_fn_loss rs (map Sc vs) =
         Inr (Val ((\<Sum>(v, r)\<leftarrow>zip vs rs. (v - r) ^ 2) / real (length vs)))"
proof -
  have st: "stack (map Sc vs) = Inr (Nd (map Sc vs))"
    using assms(2) by (intro stack_same_shape [where sh = "[]"]) (simp_all add: list_all_iff)
  have bc: "broadcastable (Nd (map Sc vs)) (as_tensor rs)"
    using assms by (simp add: broadcastable_def as_tensor_def shape_vec)
  have sub: "tsub (Nd (map Sc vs)) (as_tensor rs) = Inr (Nd (map (\<lambda>(v, r). Sc (v - r)) (zip vs rs)))"
    using bc assms(1) by (simp add: tsub_def) (simp add: as_tensor_def bop_vec del: bop.simps)
  have el: "elems (tmap (\<lambda>x. x ^ 2) (Nd (map (\<lambda>(v, r). Sc (v - r)) (zip vs rs)))) =
            map (\<lambda>(v, r). (v - r) ^ 2) (zip vs rs)"
    by (simp add: comp_def case_prod_unfold concat_single)
  have ne: "zip vs rs \<noteq> []" using assms by (cases vs; cases rs) auto
  have "mean (tmap (\<lambda>x. x ^ 2) (Nd (map (\<lambda>(v, r). Sc (v - r)) (zip vs rs)))) =
        Val ((\<Sum>(v, r)\<leftarrow>zip vs rs. (v - r) ^ 2) / real (length vs))"
    unfolding mean_def el Let_def using ne assms(1) by simp
  then show ?thesis
    by (simp add: calculate_value_fn_loss_def st sub del: tmap.simps)
qed

text \<open>
  Claim C4. The value loss should be the mean of the squared differences between
  each timestep's estimate and its own return, and 0 when every estimate equals its
  return. On the estimates the value model produces it is not: with estimates (1),
  (3) and returns 1, 3, each estimate equal to its return, the loss is 2.
\<close>

theorem value_loss_of_exact_estimates:
  "calculate_value_fn_loss [1, 3] [Nd [Sc 1], Nd [Sc 3]] = Inr (Val 2)"
  by (simp add: calculate_value_fn_loss_def stack_def as_tensor_def tsub_def
      broadcastable_def mean_def)

section \<open>The episode roller\<close>

lemma toy_simps [simp]:
  "gym_make (toy n bad) = Inr"
  "manual_seed (toy n bad) = (\<lambda>seed. Inr)"
  "env_seed (toy n bad) = (\<lambda>seed. Inr)"
  "create_models (toy n bad) = Inr"
  "env_reset (toy n bad) = (\<lambda>w. Inr ((), n))"
  "env_step (toy n bad) = (\<lambda>action w. if bad = Some w then Inl (External ''step'')
                                        else Inr (((), 1, w \<le> 1), w - 1))"
  "policy_function_model (toy n bad) = (\<lambda>observation w. Inr (Nd [Sc 0, Sc 0], w))"
  "value_function_model (toy n bad) = (\<lambda>observation w. Inr (Nd [Sc 0], w))"
  "categorical_sample (toy n bad) = (\<lambda>policy w. Inr (0, w))"
  "categorical_log_prob (toy n bad) = (\<lambda>policy action w. Inr (Sc (ln (1 / 2)), w))"
  "backward (toy n bad) = (\<lambda>k loss. Inr)"
  "optimizer_step (toy n bad) = (\<lambda>k. Inr)"
  "zero_grad (toy n bad) = (\<lambda>k. Inr)"
  by (simp_all add: toy_def)

lemma assemble_simps [simp]:
  "gym_make (assemble L) = (\<lambda>w. case lib_make L of
                          Inl e \<Rightarrow> Inl e
                        | Inr made \<Rightarrow> Inr (w\<lparr>env_core := made\<rparr>))"
  "manual_seed (assemble L) = (\<lambda>seed w. Inr (w\<lparr>torch_rng := lib_seed_torch L seed\<rparr>))"
  "env_seed (assemble L) = (\<lambda>seed w. Inr (w\<lparr>env_rng := lib_seed_env L seed\<rparr>))"
  "create_models (assemble L) = (\<lambda>w. case lib_create L (env_core w) (torch_rng w) of
                               Inl e \<Rightarrow> Inl e
                             | Inr ((p, x), g) \<Rightarrow> Inr (w\<lparr>torch_rng := g, params := p, tape := x\<rparr>))"
  "env_reset (assemble L) = (\<lambda>w. case lib_reset L (env_core w) (env_rng w) of
                           Inl e \<Rightarrow> Inl e
                         | Inr (observation, core, r) \<Rightarrow>
                             Inr (observation, w\<lparr>env_core := core, env_rng := r\<rparr>))"
  "env_step (assemble L) = (\<lambda>action w. case lib_step L action (env_core w) (env_rng w) of
                                 Inl e \<Rightarrow> Inl e
                               | Inr (result, core, r) \<Rightarrow>
                                   Inr (result, w\<lparr>env_core := core, env_rng := r\<rparr>))"
  "policy_function_model (assemble L) = (\<lambda>observation w. case lib_policy L observation (params w) of
                                 Inl e \<Rightarrow> Inl e
                               | Inr (logits, rec) \<Rightarrow> Inr (logits, w\<lparr>tape := rec (tape w)\<rparr>))"
  "value_function_model (assemble L) = (\<lambda>observation w. case lib_value L observation (params w) of
                                 Inl e \<Rightarrow> Inl e
                               | Inr (estimate, rec) \<Rightarrow> Inr (estimate, w\<lparr>tape := rec (tape w)\<rparr>))"
  "categorical_sample (assemble L) = (\<lambda>policy w. case lib_sample L policy (torch_rng w) of
                                 Inl e \<Rightarrow> Inl e
                               | Inr (action, g) \<Rightarrow> Inr (action, w\<lparr>torch_rng := g\<rparr>))"
  "categorical_log_prob (assemble L) = (\<lambda>policy action w. case lib_log_prob L policy action of
                                 Inl e \<Rightarrow> Inl e
                               | Inr (lp, rec) \<Rightarrow> Inr (lp, w\<lparr>tape := rec (tape w)\<rparr>))"
  "backward (assemble L) = (\<lambda>k loss w. case lib_backward L k loss (params w) (tape w) of
                                 Inl e \<Rightarrow> Inl e
                               | Inr x \<Rightarrow> Inr (w\<lparr>tape := x\<rparr>))"
  "optimizer_step (assemble L) = (\<lambda>k w. case lib_optimizer_step L k (params w) (tape w) of
                                 Inl e \<Rightarrow> Inl e
                               | Inr (p, x) \<Rightarrow> Inr (w\<lparr>params := p, tape := x\<rparr>))"
  "zero_grad (assemble L) = (\<lambda>k w. case lib_zero_grad L k (tape w) of
                                 Inl e \<Rightarrow> Inl e
                               | Inr x \<Rightarrow> Inr (w\<lparr>tape := x\<rparr>))"
  by (simp_all add: assemble_def)

lemma cycle_libraries_simps [simp]:
  "lib_make cycle_libraries = Inr 0"
  "lib_seed_torch cycle_libraries = (\<lambda>seed. nat seed mod 2)"
  "lib_seed_env cycle_libraries = (\<lambda>seed. nat seed mod 2)"
  "lib_create cycle_libraries = (\<lambda>core g. Inr ((1 + real g, 1), g))"
  "lib_reset cycle_libraries = (\<lambda>core r. Inr ((), 2 + 2 * r, 1 - r))"
  "lib_step cycle_libraries =
     (\<lambda>action core r. Inr (((), real_of_int action * real core, core \<le> 1), core - 1, r))"
  "lib_policy cycle_libraries = (\<lambda>observation p. Inr (Nd [Sc p, Sc (- p)], \<lambda>x. x))"
  "lib_value cycle_libraries = (\<lambda>observation p. Inr (Nd [Sc p], \<lambda>x. x))"
  "lib_sample cycle_libraries =
     (\<lambda>logits g. Inr (case logits of
                         Nd (Sc a # rest) \<Rightarrow> if 0 < a then int g else 1 - int g
                       | other \<Rightarrow> int g,
                       1 - g))"
  "lib_log_prob cycle_libraries = (\<lambda>logits action. Inr (Sc (- 1 - real_of_int action), \<lambda>x. x))"
  "lib_backward cycle_libraries =
     (\<lambda>k loss p x. if x = 0 then Inl (External ''no graph'') else Inr (Suc x))"
  "lib_optimizer_step cycle_libraries =
     (\<lambda>k p x. Inr (case k of Policy_function \<Rightarrow> - p | Value_function \<Rightarrow> p, x))"
  "lib_zero_grad cycle_libraries = (\<lambda>k x. Inr x)"
  by (simp_all add: cycle_libraries_def)

lemma episode_step_appends:
  assumes "episode_step c (obs, rs, svs, lps) w = Inr ((d, (obs', rs', svs', lps')), w')"
  shows "\<exists>r sv lp. rs' = rs @ [r] \<and> svs' = svs @ [sv] \<and> lps' = lps @ [lp]"
  using assms
  by (auto simp: episode_step_def get_policy_def get_action_def split: sum.splits prod.splits)

text \<open>
  Partial correctness of the timestep loop: an invariant of the loop body holds of
  the state in which the last pass began.
\<close>

lemma episode_loop_rule:
  assumes run: "episode_loop c s w = Some (Inr (s', w'))"
    and init: "I s w"
    and step: "\<And>s w d s1 w1. I s w \<Longrightarrow> episode_step c s w = Inr ((d, s1), w1) \<Longrightarrow> I s1 w1"
  shows "\<exists>s0 w0. I s0 w0 \<and> episode_step c s0 w0 = Inr ((True, s'), w')"
proof -
  let ?Q = "\<lambda>s' w'. \<exists>s0 w0. I s0 w0 \<and> episode_step c s0 w0 = Inr ((True, s'), w')"
  have "c' = c \<longrightarrow> I s w \<longrightarrow> (case y of Inl e \<Rightarrow> True | Inr (s', w') \<Rightarrow> ?Q s' w')"
    if "episode_loop c' s w = Some y" for c' s w y
    using that
  proof (induction rule: episode_loop.raw_induct [rotated 1, consumes 1])
    case (1 loop c' s w y)
    show ?case
    proof (intro impI)
      assume c': "c' = c" and I: "I s w"
      show "case y of Inl e \<Rightarrow> True | Inr (s', w') \<Rightarrow> ?Q s' w'"
      proof (cases "episode_step c s w")
        case (Inl e)
        with 1(2) c' show ?thesis by auto
      next
        case (Inr r)
        obtain d s1 w1 where r: "r = ((d, s1), w1)" by (metis prod.exhaust)
        show ?thesis
        proof (cases d)
          case True
          with 1(2) Inr r c' have "y = Inr (s1, w1)" by simp
          moreover have "episode_step c s w = Inr ((True, s1), w1)" using Inr r True by simp
          with I have "?Q s1 w1" by (intro exI conjI)
          ultimately show ?thesis by simp
        next
          case False
          with 1(2) Inr r c' have "loop c s1 w1 = Some y" by simp
          moreover have "I s1 w1" using step [OF I] Inr r by blast
          ultimately show ?thesis using 1(1) by blast
        qed
      qed
    qed
  qed
  from this [OF run] init show ?thesis by simp
qed

lemma run_one_episodeD:
  assumes "run_one_episode c w = Some (Inr ((ar, lps, svs, er), w'))"
  shows "\<exists>obs w1 obs' rewards. env_reset c w = Inr (obs, w1) \<and>
           episode_loop c (obs, [], [], []) w1 = Some (Inr ((obs', rewards, svs, lps), w')) \<and>
           ar = replicate (length rewards) (sum_list rewards) \<and> er = sum_list rewards"
  using assms
  by (auto simp: run_one_episode_def Let_def split: sum.splits prod.splits option.splits)

lemma episode_loop_lengths:
  fixes c :: "('o, 'w) collab"
  assumes "episode_loop c (obs, [], [], []) w = Some (Inr ((obs', rewards, svs, lps), w'))"
  shows "1 \<le> length rewards \<and> length svs = length rewards \<and> length lps = length rewards"
proof -
  let ?I = "\<lambda>(s :: 'o vars) (w :: 'w). length (fst (snd (snd s))) = length (fst (snd s)) \<and>
                    length (snd (snd (snd s))) = length (fst (snd s))"
  have "\<exists>s0 w0. ?I s0 w0 \<and> episode_step c s0 w0 = Inr ((True, (obs', rewards, svs, lps)), w')"
  proof (rule episode_loop_rule [OF assms, where I = ?I])
    show "?I (obs, [], [], []) w" by simp
  next
    fix s w d s1 w1
    assume "?I s w" and "episode_step c s w = Inr ((d, s1), w1)"
    then show "?I s1 w1"
      by (cases s; cases s1) (auto dest: episode_step_appends)
  qed
  then obtain s0 w0 where I: "?I s0 w0"
    and st: "episode_step c s0 w0 = Inr ((True, (obs', rewards, svs, lps)), w')" by blast
  then show ?thesis
    by (cases s0) (auto dest: episode_step_appends)
qed

lemma toy_episode:
  "run_one_episode (toy 5 None) w =
     Some (Inr (([5, 5, 5, 5, 5], replicate 5 (Sc (ln (1 / 2))), replicate 5 (Nd [Sc 0]), 5), 0))"
  by (simp add: run_one_episode_def episode_loop.simps episode_step_def get_policy_def
      get_action_def eval_nat_numeral)

lemma toy_short_episode:
  "run_one_episode (toy 1 None) w = Some (Inr (([1], [Sc (ln (1 / 2))], [Nd [Sc 0]], 1), 0))"
  by (simp add: run_one_episode_def episode_loop.simps episode_step_def get_policy_def
      get_action_def)

subsection \<open>The episode and its trajectory\<close>

lemma episode_step_timestep:
  "episode_step c (obs, rs, svs, lps) w =
     (case timestep c obs w of
        Inl e \<Rightarrow> Inl e
      | Inr ((st, obs', d), w') \<Rightarrow>
          Inr ((d, (obs', rs @ [step_reward st], svs @ [step_estimate st],
                    lps @ [step_log_probability st])), w'))"
  by (simp add: episode_step_def timestep_def get_policy_def get_action_def step_reward_def
      step_estimate_def step_log_probability_def split: sum.splits prod.splits)

lemma rollout_episode_loop:
  assumes "rollout c obs w steps w'"
  shows "\<exists>obs'. episode_loop c (obs, rs, svs, lps) w =
           Some (Inr ((obs', rs @ map step_reward steps, svs @ map step_estimate steps,
                       lps @ map step_log_probability steps), w'))"
  using assms
proof (induction arbitrary: rs svs lps)
  case (finished c observation w st observation' w')
  then show ?case
    by (subst episode_loop.simps) (simp add: episode_step_timestep)
next
  case (continued c observation w st observation' w1 steps w')
  from continued.IH [of "rs @ [step_reward st]" "svs @ [step_estimate st]"
      "lps @ [step_log_probability st]"] continued.hyps(1)
  show ?case
    by (subst episode_loop.simps) (simp add: episode_step_timestep)
qed

lemma episode_loop_rollout:
  fixes c :: "('o, 'w) collab"
  assumes "episode_loop c (obs, rs, svs, lps) w = Some (Inr ((obs', rs', svs', lps'), w'))"
  shows "\<exists>steps. rollout c obs w steps w' \<and> rs' = rs @ map step_reward steps \<and>
                svs' = svs @ map step_estimate steps \<and>
                lps' = lps @ map step_log_probability steps"
proof -
  let ?post = "\<lambda>(s :: 'o vars) (w :: 'w) (y :: error + 'o vars \<times> 'w).
      case y of
        Inl e \<Rightarrow> True
      | Inr (s', w') \<Rightarrow>
          (\<exists>steps. rollout c (fst s) w steps w' \<and>
             fst (snd s') = fst (snd s) @ map step_reward steps \<and>
             fst (snd (snd s')) = fst (snd (snd s)) @ map step_estimate steps \<and>
             snd (snd (snd s')) = snd (snd (snd s)) @ map step_log_probability steps)"
  have "c' = c \<longrightarrow> ?post s w y" if "episode_loop c' s w = Some y" for c' s w y
    using that
  proof (induction rule: episode_loop.raw_induct [rotated 1, consumes 1])
    case (1 loop c' s w y)
    show ?case
    proof
      assume c': "c' = c"
      obtain obs rs svs lps where s: "s = (obs, rs, svs, lps)" by (metis prod.exhaust)
      show "?post s w y"
      proof (cases "timestep c obs w")
        case (Inl e)
        with 1(2) c' s show ?thesis by (auto simp: episode_step_timestep)
      next
        case (Inr p)
        obtain st obs1 d w1 where p: "p = ((st, obs1, d), w1)" by (metis prod.exhaust)
        let ?s1 = "(obs1, rs @ [step_reward st], svs @ [step_estimate st],
                    lps @ [step_log_probability st])"
        show ?thesis
        proof (cases d)
          case True
          with 1(2) c' s Inr p have y: "y = Inr (?s1, w1)"
            by (simp add: episode_step_timestep)
          from Inr p True have "rollout c obs w [st] w1" by (intro finished) simp
          then have "rollout c (fst s) w [st] w1 \<and>
             fst (snd ?s1) = fst (snd s) @ map step_reward [st] \<and>
             fst (snd (snd ?s1)) = fst (snd (snd s)) @ map step_estimate [st] \<and>
             snd (snd (snd ?s1)) = snd (snd (snd s)) @ map step_log_probability [st]"
            by (simp add: s)
          then show ?thesis unfolding y by (simp only: sum.case prod.case) blast
        next
          case False
          with 1(2) c' s Inr p have "loop c ?s1 w1 = Some y"
            by (simp add: episode_step_timestep)
          with 1(1) have post: "?post ?s1 w1 y" by blast
          show ?thesis
          proof (cases y)
            case (Inl e)
            then show ?thesis by simp
          next
            case (Inr q)
            obtain s' w' where q: "q = (s', w')" by (metis prod.exhaust)
            from post Inr q obtain steps where
              r: "rollout c obs1 w1 steps w'"
              and a: "fst (snd s') = (rs @ [step_reward st]) @ map step_reward steps"
                "fst (snd (snd s')) = (svs @ [step_estimate st]) @ map step_estimate steps"
                "snd (snd (snd s')) =
                   (lps @ [step_log_probability st]) @ map step_log_probability steps"
              by auto
            from \<open>timestep c obs w = Inr p\<close> p False r
            have "rollout c obs w (st # steps) w'" by (intro continued) simp_all
            with a have "rollout c (fst s) w (st # steps) w' \<and>
               fst (snd s') = fst (snd s) @ map step_reward (st # steps) \<and>
               fst (snd (snd s')) = fst (snd (snd s)) @ map step_estimate (st # steps) \<and>
               snd (snd (snd s')) = snd (snd (snd s)) @ map step_log_probability (st # steps)"
              by (simp add: s)
            then show ?thesis unfolding Inr q by (simp only: sum.case prod.case) blast
          qed
        qed
      qed
    qed
  qed
  from this [OF assms] show ?thesis by simp
qed

lemma rollout_not_empty: "rollout c obs w steps w' \<Longrightarrow> steps \<noteq> []"
  by (induction rule: rollout.induct) simp_all

lemma rollout_run_one_episode:
  assumes "env_reset c w = Inr (observation, w1)" and "rollout c observation w1 steps w'"
  shows "run_one_episode c w =
           Some (Inr ((replicate (length steps) (sum_list (map step_reward steps)),
                       map step_log_probability steps, map step_estimate steps,
                       sum_list (map step_reward steps)), w'))"
proof -
  from rollout_episode_loop [OF assms(2), of "[]" "[]" "[]"] obtain obs' where
    "episode_loop c (observation, [], [], []) w1 =
       Some (Inr ((obs', map step_reward steps, map step_estimate steps,
                   map step_log_probability steps), w'))"
    by auto
  with assms(1) show ?thesis by (simp add: run_one_episode_def Let_def)
qed

lemma run_one_episode_rollout:
  assumes "run_one_episode c w = Some (Inr ((ar, lps, svs, er), w'))"
  shows "\<exists>observation w1 steps.
           env_reset c w = Inr (observation, w1) \<and> rollout c observation w1 steps w' \<and>
           ar = replicate (length steps) (sum_list (map step_reward steps)) \<and>
           lps = map step_log_probability steps \<and> svs = map step_estimate steps \<and>
           er = sum_list (map step_reward steps)"
proof -
  from run_one_episodeD [OF assms] obtain obs w1 obs' rewards where
    r: "env_reset c w = Inr (obs, w1)"
    and l: "episode_loop c (obs, [], [], []) w1 = Some (Inr ((obs', rewards, svs, lps), w'))"
    and a: "ar = replicate (length rewards) (sum_list rewards)" "er = sum_list rewards"
    by blast
  from episode_loop_rollout [OF l] obtain steps where
    "rollout c obs w1 steps w'" "rewards = map step_reward steps"
    "svs = map step_estimate steps" "lps = map step_log_probability steps"
    by auto
  with r a show ?thesis by auto
qed

text \<open>An episode of four timesteps with rewards 0, 3, 0 and 1.\<close>

lemma cycle_rollout:
  "rollout (assemble cycle_libraries) ()
     \<lparr>env_core = 4, env_rng = 0, torch_rng = 0, params = 1, tape = t\<rparr>
     [(0, Sc (- 1), Nd [Sc 1]), (3, Sc (- 2), Nd [Sc 1]),
      (0, Sc (- 1), Nd [Sc 1]), (1, Sc (- 2), Nd [Sc 1])]
     \<lparr>env_core = 0, env_rng = 0, torch_rng = 0, params = 1, tape = t\<rparr>"
proof -
  let ?c = "assemble cycle_libraries"
  let ?W = "\<lambda>k g. \<lparr>env_core = k :: nat, env_rng = 0 :: nat, torch_rng = g :: nat,
                        params = 1 :: real, tape = t\<rparr>"
  have 4: "timestep ?c () (?W 4 0) = Inr (((0, Sc (- 1), Nd [Sc 1]), (), False), ?W 3 1)"
    by (simp add: timestep_def)
  have 3: "timestep ?c () (?W 3 1) = Inr (((3, Sc (- 2), Nd [Sc 1]), (), False), ?W 2 0)"
    by (simp add: timestep_def)
  have 2: "timestep ?c () (?W 2 0) = Inr (((0, Sc (- 1), Nd [Sc 1]), (), False), ?W 1 1)"
    by (simp add: timestep_def)
  have 1: "timestep ?c () (?W 1 1) = Inr (((1, Sc (- 2), Nd [Sc 1]), (), True), ?W 0 0)"
    by (simp add: timestep_def)
  show ?thesis
    by (rule continued [OF 4] continued [OF 3] continued [OF 2] finished [OF 1])+
qed

text \<open>
  Claim C2. An episode returns exactly when the environment terminates it: if after
  the reset the timesteps run to a first one at which the environment reports
  termination, the episode roller returns, and whenever it returns there were such
  timesteps. What it returns then has one return for each timestep, every one of
  them the sum of all the rewards the environment returned in the episode, and that
  same sum as the episode return.
\<close>

theorem episode_returns_are_the_reward_sum:
  "(env_reset c w = Inr (observation, w1) \<and> rollout c observation w1 steps w' \<longrightarrow>
      run_one_episode c w =
        Some (Inr ((replicate (length steps) (sum_list (map step_reward steps)),
                    map step_log_probability steps, map step_estimate steps,
                    sum_list (map step_reward steps)), w'))) \<and>
   (run_one_episode c w =
      Some (Inr ((action_returns, log_probability_actions, state_value_estimates,
                  episode_return), w')) \<longrightarrow>
      (\<exists>observation w1 steps.
          env_reset c w = Inr (observation, w1) \<and> rollout c observation w1 steps w' \<and>
          steps \<noteq> [] \<and>
          length action_returns = length steps \<and>
          list_all (\<lambda>x. x = sum_list (map step_reward steps)) action_returns \<and>
          episode_return = sum_list (map step_reward steps) \<and>
          log_probability_actions = map step_log_probability steps \<and>
          state_value_estimates = map step_estimate steps))"
proof (intro conjI impI)
  assume a: "env_reset c w = Inr (observation, w1) \<and> rollout c observation w1 steps w'"
  from rollout_run_one_episode [OF conjunct1 [OF a] conjunct2 [OF a]]
  show "run_one_episode c w =
        Some (Inr ((replicate (length steps) (sum_list (map step_reward steps)),
                    map step_log_probability steps, map step_estimate steps,
                    sum_list (map step_reward steps)), w'))" .
next
  assume "run_one_episode c w =
      Some (Inr ((action_returns, log_probability_actions, state_value_estimates,
                  episode_return), w'))"
  from run_one_episode_rollout [OF this] obtain observation w1 steps where
    r: "env_reset c w = Inr (observation, w1)" "rollout c observation w1 steps w'"
    and a: "action_returns = replicate (length steps) (sum_list (map step_reward steps))"
    and rest: "log_probability_actions = map step_log_probability steps"
      "state_value_estimates = map step_estimate steps"
      "episode_return = sum_list (map step_reward steps)"
    by blast
  from r(2) have "steps \<noteq> []" by (rule rollout_not_empty)
  moreover from a have "length action_returns = length steps"
    and "list_all (\<lambda>x. x = sum_list (map step_reward steps)) action_returns"
    by (simp_all add: list_all_iff)
  ultimately show "\<exists>observation w1 steps.
          env_reset c w = Inr (observation, w1) \<and> rollout c observation w1 steps w' \<and>
          steps \<noteq> [] \<and>
          length action_returns = length steps \<and>
          list_all (\<lambda>x. x = sum_list (map step_reward steps)) action_returns \<and>
          episode_return = sum_list (map step_reward steps) \<and>
          log_probability_actions = map step_log_probability steps \<and>
          state_value_estimates = map step_estimate steps"
    using r rest by blast
qed

theorem episode_returns_are_the_reward_sum_witness:
  "env_reset (assemble cycle_libraries)
     \<lparr>env_core = 0, env_rng = 1, torch_rng = 0, params = 1, tape = 1\<rparr> =
     Inr ((), \<lparr>env_core = 4, env_rng = 0, torch_rng = 0, params = 1, tape = 1\<rparr>) \<and>
   rollout (assemble cycle_libraries) ()
     \<lparr>env_core = 4, env_rng = 0, torch_rng = 0, params = 1, tape = 1\<rparr>
     [(0, Sc (- 1), Nd [Sc 1]), (3, Sc (- 2), Nd [Sc 1]),
      (0, Sc (- 1), Nd [Sc 1]), (1, Sc (- 2), Nd [Sc 1])]
     \<lparr>env_core = 0, env_rng = 0, torch_rng = 0, params = 1, tape = 1\<rparr> \<and>
   run_one_episode (assemble cycle_libraries)
     \<lparr>env_core = 0, env_rng = 1, torch_rng = 0, params = 1, tape = 1\<rparr> =
     Some (Inr (([4, 4, 4, 4], [Sc (- 1), Sc (- 2), Sc (- 1), Sc (- 2)],
                 [Nd [Sc 1], Nd [Sc 1], Nd [Sc 1], Nd [Sc 1]], 4),
                \<lparr>env_core = 0, env_rng = 0, torch_rng = 0, params = 1, tape = 1\<rparr>)) \<and>
   (\<exists>observation w1 steps.
      env_reset (assemble cycle_libraries)
        \<lparr>env_core = 0, env_rng = 1, torch_rng = 0, params = 1, tape = 1\<rparr> =
        Inr (observation, w1) \<and>
      rollout (assemble cycle_libraries) observation w1 steps
        \<lparr>env_core = 0, env_rng = 0, torch_rng = 0, params = 1, tape = 1\<rparr> \<and>
      steps \<noteq> [] \<and> length [4, 4, 4, 4 :: real] = length steps \<and>
      list_all (\<lambda>x. x = sum_list (map step_reward steps)) [4, 4, 4, 4] \<and>
      4 = sum_list (map step_reward steps))"
proof -
  let ?c = "assemble cycle_libraries"
  let ?w = "\<lparr>env_core = 0 :: nat, env_rng = 1 :: nat, torch_rng = 0 :: nat,
             params = 1 :: real, tape = 1 :: nat\<rparr>"
  let ?w1 = "\<lparr>env_core = 4 :: nat, env_rng = 0 :: nat, torch_rng = 0 :: nat,
              params = 1 :: real, tape = 1 :: nat\<rparr>"
  let ?w' = "\<lparr>env_core = 0 :: nat, env_rng = 0 :: nat, torch_rng = 0 :: nat,
              params = 1 :: real, tape = 1 :: nat\<rparr>"
  let ?steps = "[(0, Sc (- 1), Nd [Sc 1]), (3, Sc (- 2), Nd [Sc 1]),
                 (0, Sc (- 1), Nd [Sc 1]), (1, Sc (- 2), Nd [Sc 1])] :: trajectory_step list"
  have r: "env_reset ?c ?w = Inr ((), ?w1)" by simp
  note ro = cycle_rollout [of 1]
  note th = episode_returns_are_the_reward_sum [of ?c ?w "()" ?w1 ?steps ?w'
      "[4, 4, 4, 4]" "[Sc (- 1), Sc (- 2), Sc (- 1), Sc (- 2)]"
      "[Nd [Sc 1], Nd [Sc 1], Nd [Sc 1], Nd [Sc 1]]" 4]
  from th r ro have run: "run_one_episode ?c ?w =
     Some (Inr (([4, 4, 4, 4], [Sc (- 1), Sc (- 2), Sc (- 1), Sc (- 2)],
                 [Nd [Sc 1], Nd [Sc 1], Nd [Sc 1], Nd [Sc 1]], 4), ?w'))"
    by (simp add: step_reward_def step_log_probability_def step_estimate_def)
  with th have "\<exists>observation w1 steps.
      env_reset ?c ?w = Inr (observation, w1) \<and> rollout ?c observation w1 steps ?w' \<and>
      steps \<noteq> [] \<and> length [4, 4, 4, 4 :: real] = length steps \<and>
      list_all (\<lambda>x. x = sum_list (map step_reward steps)) [4, 4, 4, 4] \<and>
      4 = sum_list (map step_reward steps)"
    by blast
  with r ro run show ?thesis by blast
qed

text \<open>
  Claim C10. Each pass through the timestep loop appends exactly one element to each
  of the three lists. An episode whose environment reports done on the first step
  returns, with lists of one element. Whenever an episode returns, its three
  sequences have the same length, which is at least one.
\<close>

theorem episode_records_at_least_one_step:
  "(\<forall>obs rs svs lps w d obs' rs' svs' lps' w'.
      episode_step c (obs, rs, svs, lps) w = Inr ((d, (obs', rs', svs', lps')), w') \<longrightarrow>
      length rs' = Suc (length rs) \<and> length svs' = Suc (length svs) \<and>
      length lps' = Suc (length lps)) \<and>
   (\<forall>w obs w1 s' w'.
      env_reset c w = Inr (obs, w1) \<and>
      episode_step c (obs, [], [], []) w1 = Inr ((True, s'), w') \<longrightarrow>
      (\<exists>r lp sv. run_one_episode c w = Some (Inr (([r], [lp], [sv], r), w')))) \<and>
   (\<forall>w ar lps svs er w'.
      run_one_episode c w = Some (Inr ((ar, lps, svs, er), w')) \<longrightarrow>
      1 \<le> length ar \<and> length lps = length ar \<and> length svs = length ar)"
proof (intro conjI allI impI)
  fix obs rs svs lps w d obs' rs' svs' lps' w'
  assume "episode_step c (obs, rs, svs, lps) w = Inr ((d, (obs', rs', svs', lps')), w')"
  from episode_step_appends [OF this]
  show "length rs' = Suc (length rs)" and "length svs' = Suc (length svs)"
    and "length lps' = Suc (length lps)" by auto
next
  fix w obs w1 s' w'
  assume a: "env_reset c w = Inr (obs, w1) \<and>
             episode_step c (obs, [], [], []) w1 = Inr ((True, s'), w')"
  obtain obs' rs' svs' lps' where s': "s' = (obs', rs', svs', lps')"
    by (metis prod.exhaust)
  from a s' episode_step_appends [of c obs "[]" "[]" "[]" w1 True obs' rs' svs' lps' w']
  obtain r sv lp where "rs' = [r]" "svs' = [sv]" "lps' = [lp]" by auto
  with a s' have "run_one_episode c w = Some (Inr (([r], [lp], [sv], r), w'))"
    by (subst run_one_episode_def, subst episode_loop.simps) simp
  then show "\<exists>r lp sv. run_one_episode c w = Some (Inr (([r], [lp], [sv], r), w'))"
    by blast
next
  fix w ar lps svs er w'
  assume a: "run_one_episode c w = Some (Inr ((ar, lps, svs, er), w'))"
  from run_one_episodeD [OF a] obtain obs w1 obs' rewards where
    l: "episode_loop c (obs, [], [], []) w1 = Some (Inr ((obs', rewards, svs, lps), w'))"
    and ar: "ar = replicate (length rewards) (sum_list rewards)"
    by blast
  from episode_loop_lengths [OF l] ar
  show "1 \<le> length ar" and "length lps = length ar" and "length svs = length ar" by auto
qed

theorem episode_records_at_least_one_step_witness:
  "episode_step (toy 1 None) ((), [], [], []) 1 =
     Inr ((True, ((), [1], [Nd [Sc 0]], [Sc (ln (1 / 2))])), 0) \<and>
   length [1 :: real] = Suc (length ([] :: real list)) \<and>
   env_reset (toy 1 None) 0 = Inr ((), 1) \<and>
   (\<exists>r lp sv. run_one_episode (toy 1 None) 0 = Some (Inr (([r], [lp], [sv], r), 0))) \<and>
   run_one_episode (toy 5 None) 0 =
     Some (Inr (([5, 5, 5, 5, 5], replicate 5 (Sc (ln (1 / 2))), replicate 5 (Nd [Sc 0]), 5), 0)) \<and>
   1 \<le> length [5, 5, 5, 5, 5 :: real] \<and>
   length (replicate 5 (Sc (ln (1 / 2)))) = length [5, 5, 5, 5, 5 :: real] \<and>
   length (replicate 5 (Nd [Sc 0])) = length [5, 5, 5, 5, 5 :: real]"
proof -
  have st: "episode_step (toy 1 None) ((), [], [], []) 1 =
              Inr ((True, ((), [1], [Nd [Sc 0]], [Sc (ln (1 / 2))])), 0)"
    by (simp add: episode_step_def get_policy_def get_action_def)
  have rs: "env_reset (toy 1 None) 0 = Inr ((), 1)" by simp
  note th = episode_records_at_least_one_step [of "toy 1 None"]
  note th5 = episode_records_at_least_one_step [of "toy 5 None"]
  from th st have "length [1 :: real] = Suc (length ([] :: real list))" by simp
  moreover from th rs st
  have "\<exists>r lp sv. run_one_episode (toy 1 None) 0 = Some (Inr (([r], [lp], [sv], r), 0))"
    by blast
  moreover from th5 toy_episode [of 0]
  have "1 \<le> length [5, 5, 5, 5, 5 :: real] \<and>
        length (replicate 5 (Sc (ln (1 / 2)))) = length [5, 5, 5, 5, 5 :: real] \<and>
        length (replicate 5 (Nd [Sc 0])) = length [5, 5, 5, 5, 5 :: real]"
    by simp
  ultimately show ?thesis using st rs toy_episode [of 0] by blast
qed

section \<open>The epoch orchestrator\<close>

lemma episodes_loop_as_sequence:
  "episodes_loop n c (a, l, v, r) w =
     (case episodes_in_sequence n c w of
        None \<Rightarrow> None
      | Some (Inl e) \<Rightarrow> Some (Inl e)
      | Some (Inr (eps, w')) \<Rightarrow>
          Some (Inr ((a @ concat (map ep_action_returns eps),
                      l @ concat (map ep_log_probabilities eps),
                      v @ concat (map ep_value_estimates eps),
                      r @ map ep_return eps), w')))"
proof (induction n arbitrary: a l v r w)
  case 0
  show ?case by simp
next
  case (Suc n)
  show ?case
  proof (cases "run_one_episode c w")
    case None
    then show ?thesis by simp
  next
    case (Some y)
    show ?thesis
    proof (cases y)
      case (Inl e)
      with Some show ?thesis by simp
    next
      case (Inr p)
      obtain ar lp sv er w1 where p: "p = ((ar, lp, sv, er), w1)"
        by (metis prod.exhaust)
      show ?thesis
        using Some Inr p
        by (simp add: Suc.IH ep_action_returns_def ep_log_probabilities_def
            ep_value_estimates_def ep_return_def split: option.splits sum.splits)
    qed
  qed
qed

lemma episodes_in_sequence_length:
  "episodes_in_sequence n c w = Some (Inr (eps, w')) \<Longrightarrow> length eps = n"
  by (induction n arbitrary: w eps) (auto split: option.splits sum.splits)

lemma episodes_in_sequence_constant:
  "run_one_episode c w = Some (Inr (ep, w)) \<Longrightarrow>
   episodes_in_sequence n c w = Some (Inr (replicate n ep, w))"
  by (induction n) simp_all

lemma epoch_losses_of_program_shapes:
  assumes "length ls = length rs" and "length vs = length rs" and "rs \<noteq> []"
  shows "epoch_losses rs (map Sc ls) (map (\<lambda>v. Nd [Sc v]) vs) =
         Inr (Val (- (sum_list (map (\<lambda>(l, r). l * r) (zip ls rs)) / real (length ls))),
              Val ((\<Sum>v\<leftarrow>vs. \<Sum>r\<leftarrow>rs. (v - r) ^ 2) / real (length vs * length rs)))"
proof -
  have ne: "ls \<noteq> []" "vs \<noteq> []" using assms by auto
  have st: "stack (map Sc ls) = Inr (as_tensor ls)"
    unfolding as_tensor_def using ne(1)
    by (intro stack_same_shape [where sh = "[]"]) (simp_all add: list_all_iff)
  have pl: "calculate_policy_fn_loss (as_tensor ls) (as_tensor rs) =
         Inr (Val (- (sum_list (map (\<lambda>(l, r). l * r) (zip ls rs)) / real (length ls))))"
    using assms ne by (intro policy_loss_vectors) simp_all
  show ?thesis
    unfolding epoch_losses_def st using pl value_loss_columns [OF ne(2) assms(3)]
    by simp
qed


lemma concat_replicate_single: "concat (replicate n [x]) = replicate n x"
  by (induction n) simp_all

lemma short_episodes_batch:
  assumes "run_one_episode c w = Some (Inr (([r], [Sc l], [Nd [Sc v]], r), w))"
  shows "episodes_loop n c ([], [], [], []) w =
           Some (Inr ((replicate n r, map Sc (replicate n l),
                       map (\<lambda>v. Nd [Sc v]) (replicate n v), replicate n r), w))"
  unfolding episodes_loop_as_sequence episodes_in_sequence_constant [OF assms]
  by (simp add: ep_action_returns_def ep_log_probabilities_def ep_value_estimates_def
      ep_return_def concat_replicate_single)

lemma short_episodes_losses:
  assumes "0 < n"
  shows "\<exists>pl vl. epoch_losses (replicate n r) (map Sc (replicate n l))
                  (map (\<lambda>v. Nd [Sc v]) (replicate n v)) = Inr (pl, vl)"
  using assms by (subst epoch_losses_of_program_shapes) simp_all

lemma toy_epoch:
  "train_one_epoch (toy 1 None) 0 = Some (Inr (Val 1, 0))"
proof -
  obtain pl vl where l: "epoch_losses (replicate 200 1) (map Sc (replicate 200 (ln (1 / 2))))
                  (map (\<lambda>v. Nd [Sc v]) (replicate 200 0)) = Inr (pl, vl)"
    using short_episodes_losses [of 200 1 "ln (1 / 2)" 0] by auto
  have m: "np_mean (replicate 200 1) = Val 1"
    by (simp add: np_mean_def sum_list_replicate)
  show ?thesis
    unfolding train_one_epoch_def short_episodes_batch [OF toy_short_episode] using l m
    by (simp add: step_weights_def)
qed

subsection \<open>What an epoch produces\<close>

lemma step_weights_calls:
  "step_weights c policy_loss value_loss w =
     calls_in_order (update_calls c policy_loss value_loss) w"
  by (simp add: step_weights_def update_calls_def split: sum.splits)

lemma epoch_losses_batch:
  "epoch_losses (concat (map ep_action_returns eps)) (concat (map ep_log_probabilities eps))
     (concat (map ep_value_estimates eps)) = Inr (policy_loss, value_loss) \<longleftrightarrow>
   batch_losses eps policy_loss value_loss"
  by (auto simp: epoch_losses_def batch_losses_def split: sum.splits)

lemma train_one_epoch_produced:
  assumes "episodes_in_sequence 200 c w = Some (Inr (eps, w1))"
    and "batch_losses eps policy_loss value_loss"
    and "calls_in_order (update_calls c policy_loss value_loss) w1 = Inr w'"
  shows "train_one_epoch c w = Some (Inr (Val (sum_list (map ep_return eps) / 200), w'))"
proof -
  from episodes_in_sequence_length [OF assms(1)] have len: "length eps = 200" .
  then have "eps \<noteq> []" by auto
  with len have m: "np_mean (map ep_return eps) = Val (sum_list (map ep_return eps) / 200)"
    by (simp add: np_mean_def)
  have loop: "episodes_loop 200 c ([], [], [], []) w =
      Some (Inr ((concat (map ep_action_returns eps), concat (map ep_log_probabilities eps),
                  concat (map ep_value_estimates eps), map ep_return eps), w1))"
    unfolding episodes_loop_as_sequence assms(1) by simp
  from assms(2) have l: "epoch_losses (concat (map ep_action_returns eps))
      (concat (map ep_log_probabilities eps)) (concat (map ep_value_estimates eps)) =
      Inr (policy_loss, value_loss)"
    by (simp add: epoch_losses_batch)
  show ?thesis
    unfolding train_one_epoch_def loop
    by (simp add: l step_weights_calls assms(3) m)
qed

lemma train_one_epoch_returned:
  assumes "train_one_epoch c w = Some (Inr (average_return, w'))"
  shows "\<exists>eps w1 policy_loss value_loss.
           episodes_in_sequence 200 c w = Some (Inr (eps, w1)) \<and>
           length eps = 200 \<and>
           episodes_loop 200 c ([], [], [], []) w =
             Some (Inr ((concat (map ep_action_returns eps),
                         concat (map ep_log_probabilities eps),
                         concat (map ep_value_estimates eps),
                         map ep_return eps), w1)) \<and>
           batch_losses eps policy_loss value_loss \<and>
           calls_in_order (update_calls c policy_loss value_loss) w1 = Inr w' \<and>
           average_return = Val (sum_list (map ep_return eps) / 200)"
proof -
  from assms obtain a l v r w1 pl vl where
    loop: "episodes_loop 200 c ([], [], [], []) w = Some (Inr ((a, l, v, r), w1))"
    and losses: "epoch_losses a l v = Inr (pl, vl)"
    and upd: "step_weights c pl vl w1 = Inr w'"
    and avg: "average_return = np_mean r"
    unfolding train_one_epoch_def
    by (auto split: option.splits sum.splits prod.splits)
  from loop obtain eps where
    seq: "episodes_in_sequence 200 c w = Some (Inr (eps, w1))"
    and b: "a = concat (map ep_action_returns eps)" "l = concat (map ep_log_probabilities eps)"
      "v = concat (map ep_value_estimates eps)" "r = map ep_return eps"
    unfolding episodes_loop_as_sequence
    by (auto split: option.splits sum.splits prod.splits)
  from episodes_in_sequence_length [OF seq] have len: "length eps = 200" .
  then have "eps \<noteq> []" by auto
  with avg b(4) len have "average_return = Val (sum_list (map ep_return eps) / 200)"
    by (simp add: np_mean_def)
  moreover from losses b have "batch_losses eps pl vl" by (simp add: epoch_losses_batch)
  moreover from upd have "calls_in_order (update_calls c pl vl) w1 = Inr w'"
    by (simp add: step_weights_calls)
  ultimately show ?thesis using seq len loop b by blast
qed

subsection \<open>An epoch of the cycling libraries\<close>

lemma episodes_in_sequence_pairs:
  assumes "run_one_episode c w = Some (Inr (ep1, w1))"
    and "run_one_episode c w1 = Some (Inr (ep2, w))"
  shows "episodes_in_sequence (2 * n) c w = Some (Inr (concat (replicate n [ep1, ep2]), w))"
  by (induction n) (simp_all add: assms)

lemma map_concat_replicate:
  "map f (concat (replicate n xs)) = concat (replicate n (map f xs))"
  by (induction n) simp_all

lemma concat_concat_replicate:
  "concat (concat (replicate n xss)) = concat (replicate n (concat xss))"
  by (induction n) simp_all

lemma sum_list_concat_replicate:
  "sum_list (concat (replicate n xs)) = real n * sum_list xs"
  by (induction n) (simp_all add: algebra_simps)

lemma length_concat_replicate:
  "length (concat (replicate n xs)) = n * length xs"
  by (induction n) simp_all

lemma batch_losses_of_program_shapes:
  assumes "concat (map ep_log_probabilities eps) = map Sc ls"
    and "concat (map ep_value_estimates eps) = map (\<lambda>v. Nd [Sc v]) vs"
    and "length ls = length (concat (map ep_action_returns eps))"
    and "length vs = length (concat (map ep_action_returns eps))"
    and "concat (map ep_action_returns eps) \<noteq> []"
  shows "\<exists>policy_loss value_loss. batch_losses eps policy_loss value_loss"
  unfolding epoch_losses_batch [symmetric] assms(1,2)
  using epoch_losses_of_program_shapes [OF assms(3,4,5)] by blast

text \<open>
  With the first action \<open>a\<close> (the seeded random bit, or the other action when the
  parameter is not positive), the episodes of the cycling libraries alternate
  between two timesteps with rewards \<open>2a\<close>, \<open>1 - a\<close> and four timesteps with
  rewards \<open>4a\<close>, \<open>3(1 - a)\<close>, \<open>2a\<close>, \<open>1 - a\<close>.
\<close>

lemma cycle_short_episode:
  assumes "g < 2" and "a = (if 0 < p then real g else 1 - real g)"
  shows "run_one_episode (assemble cycle_libraries)
     \<lparr>env_core = k, env_rng = 0, torch_rng = g, params = p, tape = t\<rparr> =
   Some (Inr (([a + 1, a + 1], [Sc (- 1 - a), Sc (a - 2)], [Nd [Sc p], Nd [Sc p]], a + 1),
              \<lparr>env_core = 0, env_rng = 1, torch_rng = g, params = p, tape = t\<rparr>))"
proof -
  from assms(1) consider "g = 0" | "g = 1" by linarith
  then show ?thesis
    by cases
      (simp_all add: assms(2) run_one_episode_def episode_loop.simps episode_step_def
        get_policy_def get_action_def)
qed

lemma cycle_long_episode:
  assumes "g < 2" and "a = (if 0 < p then real g else 1 - real g)"
  shows "run_one_episode (assemble cycle_libraries)
     \<lparr>env_core = k, env_rng = 1, torch_rng = g, params = p, tape = t\<rparr> =
   Some (Inr (([2 * a + 4, 2 * a + 4, 2 * a + 4, 2 * a + 4],
               [Sc (- 1 - a), Sc (a - 2), Sc (- 1 - a), Sc (a - 2)],
               [Nd [Sc p], Nd [Sc p], Nd [Sc p], Nd [Sc p]], 2 * a + 4),
              \<lparr>env_core = 0, env_rng = 0, torch_rng = g, params = p, tape = t\<rparr>))"
proof -
  from assms(1) consider "g = 0" | "g = 1" by linarith
  then show ?thesis
    by cases
      (simp_all add: assms(2) run_one_episode_def episode_loop.simps episode_step_def
        get_policy_def get_action_def)
qed

lemma cycle_episodes:
  assumes "g < 2" and "a = (if 0 < p then real g else 1 - real g)"
  shows "episodes_in_sequence 200 (assemble cycle_libraries)
     \<lparr>env_core = 0, env_rng = 0, torch_rng = g, params = p, tape = t\<rparr> =
   Some (Inr (concat (replicate 100
                [([a + 1, a + 1], [Sc (- 1 - a), Sc (a - 2)], [Nd [Sc p], Nd [Sc p]], a + 1),
                 ([2 * a + 4, 2 * a + 4, 2 * a + 4, 2 * a + 4],
                  [Sc (- 1 - a), Sc (a - 2), Sc (- 1 - a), Sc (a - 2)],
                  [Nd [Sc p], Nd [Sc p], Nd [Sc p], Nd [Sc p]], 2 * a + 4)]),
              \<lparr>env_core = 0, env_rng = 0, torch_rng = g, params = p, tape = t\<rparr>))"
  using episodes_in_sequence_pairs
    [OF cycle_short_episode [OF assms, of 0 t] cycle_long_episode [OF assms, of 0 t],
     where n = 100]
  by simp

lemma cycle_batch_losses:
  "\<exists>policy_loss value_loss.
     batch_losses (concat (replicate 100
                [([a + 1, a + 1], [Sc (- 1 - a), Sc (a - 2)], [Nd [Sc p], Nd [Sc p]], a + 1),
                 ([2 * a + 4, 2 * a + 4, 2 * a + 4, 2 * a + 4],
                  [Sc (- 1 - a), Sc (a - 2), Sc (- 1 - a), Sc (a - 2)],
                  [Nd [Sc p], Nd [Sc p], Nd [Sc p], Nd [Sc p]], 2 * a + 4)]))
       policy_loss value_loss"
  by (rule batch_losses_of_program_shapes
        [where ls = "concat (replicate 100 [- 1 - a, a - 2, - 1 - a, a - 2, - 1 - a, a - 2])"
           and vs = "concat (replicate 100 [p, p, p, p, p, p])"])
    (simp_all add: map_concat_replicate concat_concat_replicate length_concat_replicate
      ep_action_returns_def ep_log_probabilities_def ep_value_estimates_def)

lemma cycle_epoch:
  assumes "g < 2" and "a = (if 0 < p then real g else 1 - real g)" and "0 < t"
  shows "train_one_epoch (assemble cycle_libraries)
     \<lparr>env_core = 0, env_rng = 0, torch_rng = g, params = p, tape = t\<rparr> =
   Some (Inr (Val ((3 * a + 5) / 2),
              \<lparr>env_core = 0, env_rng = 0, torch_rng = g, params = - p, tape = Suc (Suc t)\<rparr>))"
proof -
  from cycle_batch_losses [of a p] obtain pl vl where
    l: "batch_losses (concat (replicate 100
                [([a + 1, a + 1], [Sc (- 1 - a), Sc (a - 2)], [Nd [Sc p], Nd [Sc p]], a + 1),
                 ([2 * a + 4, 2 * a + 4, 2 * a + 4, 2 * a + 4],
                  [Sc (- 1 - a), Sc (a - 2), Sc (- 1 - a), Sc (a - 2)],
                  [Nd [Sc p], Nd [Sc p], Nd [Sc p], Nd [Sc p]], 2 * a + 4)])) pl vl"
    by blast
  have u: "calls_in_order (update_calls (assemble cycle_libraries) pl vl)
             \<lparr>env_core = 0, env_rng = 0, torch_rng = g, params = p, tape = t\<rparr> =
           Inr \<lparr>env_core = 0, env_rng = 0, torch_rng = g, params = - p, tape = Suc (Suc t)\<rparr>"
    using assms(3) by (simp add: update_calls_def)
  from train_one_epoch_produced [OF cycle_episodes [OF assms(1,2)] l u] show ?thesis
    by (simp add: map_concat_replicate sum_list_concat_replicate ep_return_def)
qed

text \<open>
  Claim C5. Whenever 200 episodes run one after the other return, the losses of
  their batch are computed and the calls of the update return, the epoch returns,
  and what it returns is the arithmetic mean of the 200 episode returns. And an
  epoch that returns has run exactly 200 episodes one after the other; its batch is
  the concatenation, in episode order, of their per-timestep returns,
  log-probabilities and value estimates, with the list of the 200 episode returns;
  and the value it returns is the arithmetic mean of those 200 episode returns.
\<close>

theorem epoch_runs_200_episodes_in_order:
  "(episodes_in_sequence 200 c w = Some (Inr (eps, w1)) \<and>
    batch_losses eps policy_loss value_loss \<and>
    calls_in_order (update_calls c policy_loss value_loss) w1 = Inr w' \<longrightarrow>
      train_one_epoch c w = Some (Inr (Val (sum_list (map ep_return eps) / 200), w'))) \<and>
   (train_one_epoch c w = Some (Inr (average_return, w')) \<longrightarrow>
      (\<exists>eps w1 policy_loss value_loss.
           episodes_in_sequence 200 c w = Some (Inr (eps, w1)) \<and>
           length eps = 200 \<and>
           episodes_loop 200 c ([], [], [], []) w =
             Some (Inr ((concat (map ep_action_returns eps),
                         concat (map ep_log_probabilities eps),
                         concat (map ep_value_estimates eps),
                         map ep_return eps), w1)) \<and>
           batch_losses eps policy_loss value_loss \<and>
           calls_in_order (update_calls c policy_loss value_loss) w1 = Inr w' \<and>
           average_return = Val (sum_list (map ep_return eps) / 200)))"
proof (intro conjI impI)
  assume a: "episodes_in_sequence 200 c w = Some (Inr (eps, w1)) \<and>
    batch_losses eps policy_loss value_loss \<and>
    calls_in_order (update_calls c policy_loss value_loss) w1 = Inr w'"
  then have "episodes_in_sequence 200 c w = Some (Inr (eps, w1))"
    and "batch_losses eps policy_loss value_loss"
    and "calls_in_order (update_calls c policy_loss value_loss) w1 = Inr w'"
    by simp_all
  then show "train_one_epoch c w = Some (Inr (Val (sum_list (map ep_return eps) / 200), w'))"
    by (rule train_one_epoch_produced)
next
  assume "train_one_epoch c w = Some (Inr (average_return, w'))"
  then show "\<exists>eps w1 policy_loss value_loss.
           episodes_in_sequence 200 c w = Some (Inr (eps, w1)) \<and>
           length eps = 200 \<and>
           episodes_loop 200 c ([], [], [], []) w =
             Some (Inr ((concat (map ep_action_returns eps),
                         concat (map ep_log_probabilities eps),
                         concat (map ep_value_estimates eps),
                         map ep_return eps), w1)) \<and>
           batch_losses eps policy_loss value_loss \<and>
           calls_in_order (update_calls c policy_loss value_loss) w1 = Inr w' \<and>
           average_return = Val (sum_list (map ep_return eps) / 200)"
    by (rule train_one_epoch_returned)
qed

theorem epoch_runs_200_episodes_in_order_witness:
  "\<exists>policy_loss value_loss.
     episodes_in_sequence 200 (assemble cycle_libraries)
       \<lparr>env_core = 0, env_rng = 0, torch_rng = 0, params = 1, tape = 1\<rparr> =
       Some (Inr (concat (replicate 100
                [([1, 1], [Sc (- 1), Sc (- 2)], [Nd [Sc 1], Nd [Sc 1]], 1),
                 ([4, 4, 4, 4], [Sc (- 1), Sc (- 2), Sc (- 1), Sc (- 2)],
                  [Nd [Sc 1], Nd [Sc 1], Nd [Sc 1], Nd [Sc 1]], 4)]),
              \<lparr>env_core = 0, env_rng = 0, torch_rng = 0, params = 1, tape = 1\<rparr>)) \<and>
     batch_losses (concat (replicate 100
                [([1, 1], [Sc (- 1), Sc (- 2)], [Nd [Sc 1], Nd [Sc 1]], 1),
                 ([4, 4, 4, 4], [Sc (- 1), Sc (- 2), Sc (- 1), Sc (- 2)],
                  [Nd [Sc 1], Nd [Sc 1], Nd [Sc 1], Nd [Sc 1]], 4)]))
       policy_loss value_loss \<and>
     calls_in_order (update_calls (assemble cycle_libraries) policy_loss value_loss)
       \<lparr>env_core = 0, env_rng = 0, torch_rng = 0, params = 1, tape = 1\<rparr> =
       Inr \<lparr>env_core = 0, env_rng = 0, torch_rng = 0, params = - 1, tape = 3\<rparr> \<and>
     train_one_epoch (assemble cycle_libraries)
       \<lparr>env_core = 0, env_rng = 0, torch_rng = 0, params = 1, tape = 1\<rparr> =
       Some (Inr (Val (5 / 2),
                  \<lparr>env_core = 0, env_rng = 0, torch_rng = 0, params = - 1, tape = 3\<rparr>)) \<and>
     (\<exists>eps w1 policy_loss value_loss.
        episodes_in_sequence 200 (assemble cycle_libraries)
          \<lparr>env_core = 0, env_rng = 0, torch_rng = 0, params = 1, tape = 1\<rparr> =
          Some (Inr (eps, w1)) \<and>
        length eps = 200 \<and>
        Val (5 / 2) = Val (sum_list (map ep_return eps) / 200))"
proof -
  let ?c = "assemble cycle_libraries"
  let ?w = "\<lparr>env_core = 0 :: nat, env_rng = 0 :: nat, torch_rng = 0 :: nat,
             params = 1 :: real, tape = 1 :: nat\<rparr>"
  let ?w' = "\<lparr>env_core = 0 :: nat, env_rng = 0 :: nat, torch_rng = 0 :: nat,
              params = - 1 :: real, tape = 3 :: nat\<rparr>"
  let ?eps = "concat (replicate 100
                [([1, 1], [Sc (- 1), Sc (- 2)], [Nd [Sc 1], Nd [Sc 1]], 1),
                 ([4, 4, 4, 4], [Sc (- 1), Sc (- 2), Sc (- 1), Sc (- 2)],
                  [Nd [Sc 1], Nd [Sc 1], Nd [Sc 1], Nd [Sc 1]], 4)]) :: episode list"
  have e: "episodes_in_sequence 200 ?c ?w = Some (Inr (?eps, ?w))"
    using cycle_episodes [of 0 0 1 1] by simp
  obtain pl vl where l: "batch_losses ?eps pl vl"
    using cycle_batch_losses [of 0 1] by auto
  have u: "calls_in_order (update_calls ?c pl vl) ?w = Inr ?w'"
    by (simp add: update_calls_def eval_nat_numeral)
  note th = epoch_runs_200_episodes_in_order [of ?c ?w ?eps ?w pl vl ?w' "Val (5 / 2)"]
  from th e l u have "train_one_epoch ?c ?w =
      Some (Inr (Val (sum_list (map ep_return ?eps) / 200), ?w'))"
    by blast
  then have t: "train_one_epoch ?c ?w = Some (Inr (Val (5 / 2), ?w'))"
    by (simp add: map_concat_replicate sum_list_concat_replicate ep_return_def)
  with th have "\<exists>eps w1 policy_loss value_loss.
        episodes_in_sequence 200 ?c ?w = Some (Inr (eps, w1)) \<and> length eps = 200 \<and>
        Val (5 / 2) = Val (sum_list (map ep_return eps) / 200)"
    by blast
  with e l u t show ?thesis
    by (intro exI [of _ pl] exI [of _ vl] conjI)
qed

text \<open>
  Claim C1 says that the policy loss is computed from the returns with the critic's
  estimate subtracted. It is not: with one timestep of log-probability -0.5, return 2
  and estimate (4), the policy loss of the epoch is 1, where the loss with the
  baseline would be -1.
\<close>

theorem policy_loss_has_no_baseline:
  "epoch_losses [2] [Sc (- 1 / 2)] [Nd [Sc 4]] = Inr (Val 1, Val 4) \<and>
   Val 1 \<noteq> Val (spec_baseline_policy_loss [2] [- 1 / 2] [4])"
  by (simp add: epoch_losses_def calculate_policy_fn_loss_def calculate_value_fn_loss_def
      stack_def as_tensor_def tsub_def tmul_def broadcastable_def mean_def
      spec_baseline_policy_loss_def)

text \<open>
  Claim C1, amended. In every epoch update the policy loss is computed from the
  whole-episode returns themselves: it is the negated batch mean of log-probability
  times return, whatever the critic estimated. The estimates are not subtracted;
  they enter the value loss only.
\<close>

theorem policy_loss_uses_raw_returns:
  assumes "length ls = length rs" and "ls \<noteq> []"
    and "epoch_losses rs (map Sc ls) estimates = Inr (policy_function_loss, value_function_loss)"
  shows "policy_function_loss =
           Val (- (sum_list (map (\<lambda>(l, r). l * r) (zip ls rs)) / real (length ls)))"
proof -
  have st: "stack (map Sc ls) = Inr (as_tensor ls)"
    unfolding as_tensor_def using assms(2)
    by (intro stack_same_shape [where sh = "[]"]) (simp_all add: list_all_iff)
  from assms(3) show ?thesis
    unfolding epoch_losses_def st
    by (simp add: policy_loss_vectors [OF assms(1,2)] split: sum.splits)
qed

theorem policy_loss_uses_raw_returns_witness:
  "length [- 1 / 2 :: real] = length [2 :: real] \<and> [- 1 / 2 :: real] \<noteq> [] \<and>
   epoch_losses [2] (map Sc [- 1 / 2]) [Nd [Sc 4]] = Inr (Val 1, Val 4) \<and>
   Val 1 = Val (- (sum_list (map (\<lambda>(l, r). l * r) (zip [- 1 / 2] [2])) / real (length [- 1 / 2 :: real])))"
proof -
  have e: "epoch_losses [2] (map Sc [- 1 / 2]) [Nd [Sc 4]] = Inr (Val 1, Val 4)"
    by (simp add: epoch_losses_def calculate_policy_fn_loss_def calculate_value_fn_loss_def
        stack_def as_tensor_def tsub_def tmul_def broadcastable_def mean_def)
  from policy_loss_uses_raw_returns [OF _ _ e] e show ?thesis by simp
qed

section \<open>The order of the calls\<close>

lemma logged_simps [simp]:
  "gym_make (logged c) = log_call GymMake (gym_make c)"
  "manual_seed (logged c) seed = log_call (ManualSeed seed) (manual_seed c seed)"
  "env_seed (logged c) seed = log_call (EnvSeed seed) (env_seed c seed)"
  "create_models (logged c) = log_call CreateModels (create_models c)"
  "env_reset (logged c) = log_result (\<lambda>x. EnvReset) (env_reset c)"
  "env_step (logged c) action =
     log_result (\<lambda>(observation, reward, done). EnvStep action reward done) (env_step c action)"
  "policy_function_model (logged c) observation =
     log_result (\<lambda>x. PolicyForward) (policy_function_model c observation)"
  "value_function_model (logged c) observation =
     log_result (\<lambda>x. ValueForward) (value_function_model c observation)"
  "categorical_sample (logged c) policy = log_result (\<lambda>x. Sample) (categorical_sample c policy)"
  "categorical_log_prob (logged c) policy action =
     log_result (\<lambda>x. LogProb) (categorical_log_prob c policy action)"
  "backward (logged c) k loss = log_call (Backward k loss) (backward c k loss)"
  "optimizer_step (logged c) k = log_call (OptimizerStep k) (optimizer_step c k)"
  "zero_grad (logged c) k = log_call (ZeroGrad k) (zero_grad c k)"
  by (simp_all add: logged_def)

lemma log_call_Inr:
  "log_call ev f (tr, w) = Inr (tr', w') \<longleftrightarrow> f w = Inr w' \<and> tr' = tr @ [ev]"
  by (auto simp: log_call_def split: sum.splits)

lemma log_result_Inr:
  "log_result ev f (tr, w) = Inr (x, tr', w') \<longleftrightarrow> f w = Inr (x, w') \<and> tr' = tr @ [ev x]"
  by (auto simp: log_result_def split: sum.splits)

lemma step_weights_logged:
  assumes "step_weights (logged c) pl vl (tr, w) = Inr (tr', w')"
  shows "tr' = tr @ [Backward Value_function vl, OptimizerStep Value_function,
                     Backward Policy_function pl, OptimizerStep Policy_function,
                     ZeroGrad Value_function, ZeroGrad Policy_function]"
  using assms
  by (auto simp: step_weights_def log_call_Inr split: sum.splits)

lemma episode_step_logged:
  assumes "episode_step (logged c) s (tr, w) = Inr ((d, s'), (tr', w'))"
  shows "\<exists>a r. tr' = tr @ [ValueForward, PolicyForward, Sample, LogProb, EnvStep a r d]"
  using assms
  by (cases s) (auto simp: episode_step_def get_policy_def get_action_def log_result_Inr
      split: sum.splits)


lemma run_one_episode_logged:
  fixes c :: "('o, 'w) collab"
  assumes "run_one_episode (logged c) (tr, w) = Some (Inr (ep, (tr', w')))"
  shows "\<exists>evs. tr' = tr @ evs \<and> \<not> list_ex update_event evs"
proof -
  obtain ar lps svs er where ep: "ep = (ar, lps, svs, er)" by (metis prod.exhaust)
  from run_one_episodeD [OF assms [unfolded ep]] obtain obs tw1 obs' rewards where
    r: "env_reset (logged c) (tr, w) = Inr (obs, tw1)"
    and l: "episode_loop (logged c) (obs, [], [], []) tw1 =
              Some (Inr ((obs', rewards, svs, lps), (tr', w')))"
    by blast
  let ?I = "\<lambda>(s :: 'o vars) (tw :: event list \<times> 'w).
              \<exists>evs. fst tw = tr @ evs \<and> \<not> list_ex update_event evs"
  have "\<exists>s0 tw0. ?I s0 tw0 \<and>
          episode_step (logged c) s0 tw0 = Inr ((True, (obs', rewards, svs, lps)), (tr', w'))"
  proof (rule episode_loop_rule [OF l, where I = ?I])
    from r have "fst tw1 = tr @ [EnvReset]"
      by (cases tw1) (simp add: log_result_Inr)
    then show "?I (obs, [], [], []) tw1" by simp
  next
    fix s tw d s1 tw1
    assume I: "?I s tw" and st: "episode_step (logged c) s tw = Inr ((d, s1), tw1)"
    from I obtain evs where evs: "fst tw = tr @ evs" "\<not> list_ex update_event evs" by blast
    from st episode_step_logged [of c s "fst tw" "snd tw" d s1 "fst tw1" "snd tw1"]
    obtain a r where "fst tw1 = fst tw @ [ValueForward, PolicyForward, Sample, LogProb, EnvStep a r d]"
      by auto
    with evs have "fst tw1 = tr @ (evs @ [ValueForward, PolicyForward, Sample, LogProb, EnvStep a r d])"
      and "\<not> list_ex update_event (evs @ [ValueForward, PolicyForward, Sample, LogProb, EnvStep a r d])"
      by simp_all
    then show "?I s1 tw1" by blast
  qed
  then obtain s0 tw0 evs where evs: "fst tw0 = tr @ evs" "\<not> list_ex update_event evs"
    and st: "episode_step (logged c) s0 tw0 = Inr ((True, (obs', rewards, svs, lps)), (tr', w'))"
    by blast
  from st episode_step_logged [of c s0 "fst tw0" "snd tw0" True _ tr' w']
  obtain a r where "tr' = fst tw0 @ [ValueForward, PolicyForward, Sample, LogProb, EnvStep a r True]"
    by auto
  with evs have "tr' = tr @ (evs @ [ValueForward, PolicyForward, Sample, LogProb, EnvStep a r True])"
    and "\<not> list_ex update_event (evs @ [ValueForward, PolicyForward, Sample, LogProb, EnvStep a r True])"
    by simp_all
  then show ?thesis by blast
qed

lemma episodes_loop_logged:
  "episodes_loop n (logged c) b (tr, w) = Some (Inr (b', (tr', w'))) \<Longrightarrow>
   \<exists>evs. tr' = tr @ evs \<and> \<not> list_ex update_event evs"
proof (induction n arbitrary: b tr w)
  case 0
  then show ?case by simp
next
  case (Suc n)
  obtain a l v r where b: "b = (a, l, v, r)" by (metis prod.exhaust)
  from Suc.prems b obtain ar lp sv er tr1 w1 where
    ep: "run_one_episode (logged c) (tr, w) = Some (Inr ((ar, lp, sv, er), (tr1, w1)))"
    and rest: "episodes_loop n (logged c) (a @ ar, l @ lp, v @ sv, r @ [er]) (tr1, w1) =
                 Some (Inr (b', (tr', w')))"
    by (auto split: option.splits sum.splits)
  from run_one_episode_logged [OF ep] obtain evs1 where
    1: "tr1 = tr @ evs1" "\<not> list_ex update_event evs1" by blast
  from Suc.IH [OF rest] obtain evs2 where
    2: "tr' = tr1 @ evs2" "\<not> list_ex update_event evs2" by blast
  from 1 2 have "tr' = tr @ (evs1 @ evs2)" "\<not> list_ex update_event (evs1 @ evs2)"
    by simp_all
  then show ?case by blast
qed


lemma toy_logged_episode:
  "run_one_episode (logged (toy 1 None)) (tr, 0) =
     Some (Inr (([1], [Sc (ln (1 / 2))], [Nd [Sc 0]], 1),
                (tr @ [EnvReset, ValueForward, PolicyForward, Sample, LogProb, EnvStep 0 1 True], 0)))"
  by (simp add: run_one_episode_def episode_loop.simps episode_step_def get_policy_def
      get_action_def log_result_def)

lemma episodes_loop_repeating:
  assumes "\<And>tr. run_one_episode lc (tr, w) = Some (Inr ((ar, lp, sv, er), (tr @ evs, w)))"
  shows "episodes_loop n lc (a, l, v, r) (tr, w) =
           Some (Inr ((a @ concat (replicate n ar), l @ concat (replicate n lp),
                       v @ concat (replicate n sv), r @ replicate n er),
                      (tr @ concat (replicate n evs), w)))"
  by (induction n arbitrary: a l v r tr) (simp_all add: assms replicate_app_Cons_same)

lemma toy_logged_epoch:
  "\<exists>tr'. train_one_epoch (logged (toy 1 None)) ([], 0) = Some (Inr (Val 1, (tr', 0)))"
proof -
  have loop: "episodes_loop 200 (logged (toy 1 None)) ([], [], [], []) ([], 0) =
      Some (Inr ((replicate 200 1, map Sc (replicate 200 (ln (1 / 2))),
                  map (\<lambda>v. Nd [Sc v]) (replicate 200 0), replicate 200 1),
                 (concat (replicate 200
                    [EnvReset, ValueForward, PolicyForward, Sample, LogProb, EnvStep 0 1 True]), 0)))"
    by (subst episodes_loop_repeating [OF toy_logged_episode])
      (simp add: concat_replicate_single)
  have "\<exists>pl vl. epoch_losses (replicate 200 1) (map Sc (replicate 200 (ln (1 / 2))))
                  (map (\<lambda>v. Nd [Sc v]) (replicate 200 0)) = Inr (pl, vl)"
    by (subst epoch_losses_of_program_shapes) simp_all
  then obtain pl vl where l: "epoch_losses (replicate 200 1) (map Sc (replicate 200 (ln (1 / 2))))
                  (map (\<lambda>v. Nd [Sc v]) (replicate 200 0)) = Inr (pl, vl)" by blast
  have m: "np_mean (replicate 200 1) = Val 1"
    by (simp add: np_mean_def sum_list_replicate)
  show ?thesis
    unfolding train_one_epoch_def loop using l m
    by (simp add: step_weights_def log_call_def)
qed

text \<open>
  Claim C6. In an epoch that returns, the calls on the two models and optimizers
  come after all calls of the 200 episodes and are, in this order: the backward
  pass of the value loss of the batch, the step of the value optimizer, the backward
  pass of the policy loss of the batch, the step of the policy optimizer, the
  clearing of the value gradients, the clearing of the policy gradients. No
  gradient is touched before, and none is cleared between the two backward passes.
\<close>

theorem updates_in_order_after_the_episodes:
  assumes "train_one_epoch (logged c) (tr, w) = Some (Inr (average_return, (tr', w')))"
  shows "\<exists>eps episode_events w1 policy_loss value_loss.
           episodes_in_sequence 200 (logged c) (tr, w) =
             Some (Inr (eps, (tr @ episode_events, w1))) \<and>
           \<not> list_ex update_event episode_events \<and>
           batch_losses eps policy_loss value_loss \<and>
           tr' = tr @ episode_events @
                   [Backward Value_function value_loss, OptimizerStep Value_function,
                    Backward Policy_function policy_loss, OptimizerStep Policy_function,
                    ZeroGrad Value_function, ZeroGrad Policy_function]"
proof -
  from train_one_epoch_returned [OF assms] obtain eps tw1 pl vl where
    seq: "episodes_in_sequence 200 (logged c) (tr, w) = Some (Inr (eps, tw1))"
    and loop: "episodes_loop 200 (logged c) ([], [], [], []) (tr, w) =
             Some (Inr ((concat (map ep_action_returns eps),
                         concat (map ep_log_probabilities eps),
                         concat (map ep_value_estimates eps),
                         map ep_return eps), tw1))"
    and l: "batch_losses eps pl vl"
    and u: "calls_in_order (update_calls (logged c) pl vl) tw1 = Inr (tr', w')"
    by blast
  obtain tr1 w1 where tw1: "tw1 = (tr1, w1)" by (metis prod.exhaust)
  from episodes_loop_logged [OF loop [unfolded tw1]] obtain evs where
    evs: "tr1 = tr @ evs" "\<not> list_ex update_event evs" by blast
  from u tw1 have "step_weights (logged c) pl vl (tr1, w1) = Inr (tr', w')"
    by (simp add: step_weights_calls)
  from step_weights_logged [OF this] evs(1)
  have "tr' = tr @ evs @
                   [Backward Value_function vl, OptimizerStep Value_function,
                    Backward Policy_function pl, OptimizerStep Policy_function,
                    ZeroGrad Value_function, ZeroGrad Policy_function]"
    by simp
  with seq tw1 evs l show ?thesis by blast
qed

theorem updates_in_order_after_the_episodes_witness:
  "train_one_epoch (logged (toy 1 None)) ([], 0) =
     Some (Inr (Val 1,
       (concat (replicate 200
          [EnvReset, ValueForward, PolicyForward, Sample, LogProb, EnvStep 0 1 True]) @
        [Backward Value_function (Val 1), OptimizerStep Value_function,
         Backward Policy_function (Val (ln 2)), OptimizerStep Policy_function,
         ZeroGrad Value_function, ZeroGrad Policy_function], 0)))"
proof -
  let ?evs = "concat (replicate 200
          [EnvReset, ValueForward, PolicyForward, Sample, LogProb, EnvStep 0 1 True])"
  from toy_logged_epoch obtain tr' where
    t: "train_one_epoch (logged (toy 1 None)) ([], 0) = Some (Inr (Val 1, (tr', 0)))" by blast
  from updates_in_order_after_the_episodes [OF t] obtain eps evs w1 pl vl where
    seq: "episodes_in_sequence 200 (logged (toy 1 None)) ([], 0) =
            Some (Inr (eps, ([] @ evs, w1)))"
    and bl: "batch_losses eps pl vl"
    and tr: "tr' = [] @ evs @
                   [Backward Value_function vl, OptimizerStep Value_function,
                    Backward Policy_function pl, OptimizerStep Policy_function,
                    ZeroGrad Value_function, ZeroGrad Policy_function]"
    by blast
  have loop: "episodes_loop 200 (logged (toy 1 None)) ([], [], [], []) ([], 0) =
      Some (Inr ((replicate 200 1, map Sc (replicate 200 (ln (1 / 2))),
                  map (\<lambda>v. Nd [Sc v]) (replicate 200 0), replicate 200 1), (?evs, 0)))"
    by (subst episodes_loop_repeating [OF toy_logged_episode])
      (simp add: concat_replicate_single)
  from loop seq have e: "evs = ?evs"
    and b: "concat (map ep_action_returns eps) = replicate 200 1"
      "concat (map ep_log_probabilities eps) = map Sc (replicate 200 (ln (1 / 2)))"
      "concat (map ep_value_estimates eps) = map (\<lambda>v. Nd [Sc v]) (replicate 200 0)"
    unfolding episodes_loop_as_sequence by simp_all
  from bl have "epoch_losses (concat (map ep_action_returns eps))
      (concat (map ep_log_probabilities eps)) (concat (map ep_value_estimates eps)) =
      Inr (pl, vl)"
    by (simp add: epoch_losses_batch)
  then have "epoch_losses (replicate 200 1) (map Sc (replicate 200 (ln (1 / 2))))
      (map (\<lambda>v. Nd [Sc v]) (replicate 200 0)) = Inr (pl, vl)"
    by (simp only: b)
  moreover have "epoch_losses (replicate 200 1) (map Sc (replicate 200 (ln (1 / 2))))
      (map (\<lambda>v. Nd [Sc v]) (replicate 200 0)) = Inr (Val (ln 2), Val 1)"
    by (subst epoch_losses_of_program_shapes)
      (simp_all add: sum_list_replicate ln_div)
  ultimately have "pl = Val (ln 2)" and "vl = Val 1" by simp_all
  with t tr e show ?thesis by simp
qed

section \<open>Errors\<close>

lemma timestep_raises_iff:
  "episode_step c (obs, rs, svs, lps) w = Inl e \<longleftrightarrow> timestep_raises c obs w e"
  by (auto simp: episode_step_def get_policy_def get_action_def timestep_raises_def
      split: sum.splits prod.splits)

lemma episode_loop_raises:
  "episode_step c s w = Inl e \<Longrightarrow> episode_loop c s w = Some (Inl e)"
  by (subst episode_loop.simps) simp

lemma after_steps_loop:
  "after_steps k c s w = Some (s', w') \<Longrightarrow> episode_loop c s w = episode_loop c s' w'"
proof (induction k arbitrary: s w)
  case 0
  then show ?case by simp
next
  case (Suc k)
  from Suc.prems obtain s1 w1 where
    st: "episode_step c s w = Inr ((False, s1), w1)" and r: "after_steps k c s1 w1 = Some (s', w')"
    by (auto split: sum.splits prod.splits if_splits)
  have "episode_loop c s w = episode_loop c s1 w1"
    by (subst episode_loop.simps) (simp add: st)
  with Suc.IH [OF r] show ?case by simp
qed

lemma episode_raises_propagates:
  assumes "episode_raises c w e"
  shows "run_one_episode c w = Some (Inl e)"
  using assms
proof cases
  case at_reset
  then show ?thesis by (simp add: run_one_episode_def)
next
  case (at_timestep observation w1 k s w2)
  obtain obs rs svs lps where s: "s = (obs, rs, svs, lps)" by (metis prod.exhaust)
  from at_timestep(3) s have "episode_step c s w2 = Inl e"
    by (simp add: timestep_raises_iff)
  then have "episode_loop c s w2 = Some (Inl e)" by (rule episode_loop_raises)
  with after_steps_loop [OF at_timestep(2)]
  have "episode_loop c (observation, [], [], []) w1 = Some (Inl e)" by simp
  with at_timestep(1) show ?thesis by (simp add: run_one_episode_def)
qed

lemma episodes_loop_add:
  "episodes_loop (j + n) c b w =
     (case episodes_loop j c b w of
        None \<Rightarrow> None
      | Some (Inl e) \<Rightarrow> Some (Inl e)
      | Some (Inr (b', w')) \<Rightarrow> episodes_loop n c b' w')"
proof (induction j arbitrary: b w)
  case 0
  show ?case by simp
next
  case (Suc j)
  obtain a l v r where b: "b = (a, l, v, r)" by (metis prod.exhaust)
  show ?case
    by (simp add: b Suc.IH split: option.splits sum.splits prod.splits)
qed

lemma epochs_loop_add:
  "epochs_loop (m + n) c k out w =
     (case epochs_loop m c k out w of
        None \<Rightarrow> None
      | Some (out', Inl e) \<Rightarrow> Some (out', Inl e)
      | Some (out', Inr w') \<Rightarrow> epochs_loop n c (k + m) out' w')"
  by (induction m arbitrary: k out w) (simp_all split: option.splits sum.splits prod.splits)

lemma epoch_raises_propagates:
  assumes "epoch_raises c w e"
  shows "train_one_epoch c w = Some (Inl e)"
  using assms
proof cases
  case (in_episode j b w1)
  from in_episode(1) obtain n where n: "200 = j + Suc n"
    by (metis less_imp_Suc_add add_Suc_right)
  obtain a l v r where b: "b = (a, l, v, r)" by (metis prod.exhaust)
  have "episodes_loop (Suc n) c b w1 = Some (Inl e)"
    using episode_raises_propagates [OF in_episode(3)] by (simp add: b)
  then have "episodes_loop (j + Suc n) c ([], [], [], []) w = Some (Inl e)"
    unfolding episodes_loop_add [of j "Suc n"] using in_episode(2) by simp
  then have "episodes_loop 200 c ([], [], [], []) w = Some (Inl e)"
    by (simp only: n)
  then show ?thesis by (simp add: train_one_epoch_def)
next
  case (in_update eps w1 pl vl)
  from episodes_in_sequence_length [OF in_update(1)] have "length eps = 200" .
  have loop: "episodes_loop 200 c ([], [], [], []) w =
      Some (Inr ((concat (map ep_action_returns eps), concat (map ep_log_probabilities eps),
                  concat (map ep_value_estimates eps), map ep_return eps), w1))"
    unfolding episodes_loop_as_sequence in_update(1) by simp
  from in_update(2) have l: "epoch_losses (concat (map ep_action_returns eps))
      (concat (map ep_log_probabilities eps)) (concat (map ep_value_estimates eps)) =
      Inr (pl, vl)"
    by (simp add: epoch_losses_batch)
  show ?thesis
    unfolding train_one_epoch_def loop
    by (simp add: l step_weights_calls in_update(3))
qed

lemma run_raises_propagates:
  assumes "run_raises c epochs w out e"
  shows "train c epochs w = Some (out, Inl e)"
  using assms
proof cases
  case (in_epoch w0 m w1)
  from in_epoch(2) obtain n where n: "nat epochs = m + Suc n"
    by (metis less_imp_Suc_add add_Suc_right)
  have "epochs_loop (Suc n) c (0 + m) out w1 = Some (out, Inl e)"
    using epoch_raises_propagates [OF in_epoch(4)] by simp
  then have "epochs_loop (m + Suc n) c 0 [] w0 = Some (out, Inl e)"
    unfolding epochs_loop_add [of m "Suc n"] using in_epoch(3) by simp
  then have "epochs_loop (nat epochs) c 0 [] w0 = Some (out, Inl e)"
    by (simp only: n)
  with in_epoch(1) show ?thesis by (simp add: train_def)
qed

text \<open>
  Claim C7. An error that a collaborator raises during an episode is what the
  episode roller returns; an error raised in any of the 200 episodes, or by one of
  the six calls of the update, is what the epoch returns; and the driver ends there
  with that same error, after the lines of the epochs that had returned. Nothing is
  caught, retried or resumed.
\<close>

theorem collaborator_errors_propagate:
  "(episode_raises c w e \<longrightarrow> run_one_episode c w = Some (Inl e)) \<and>
   (epoch_raises c w e \<longrightarrow> train_one_epoch c w = Some (Inl e)) \<and>
   (run_raises c epochs w out e \<longrightarrow> train c epochs w = Some (out, Inl e))"
  by (intro conjI impI)
    (erule episode_raises_propagates epoch_raises_propagates run_raises_propagates)+

lemma short_episodes_batch_losses:
  assumes "0 < n"
  shows "\<exists>policy_loss value_loss.
           batch_losses (replicate n ([r], [Sc l], [Nd [Sc v]], r)) policy_loss value_loss"
  using assms
  by (intro batch_losses_of_program_shapes [where ls = "replicate n l" and vs = "replicate n v"])
    (simp_all add: ep_action_returns_def ep_log_probabilities_def ep_value_estimates_def
      concat_replicate_single)

theorem collaborator_errors_propagate_witness:
  "episode_raises (toy 3 (Some 2)) 0 (External ''step'') \<and>
   run_one_episode (toy 3 (Some 2)) 0 = Some (Inl (External ''step'')) \<and>
   epoch_raises (toy 3 (Some 2)) 0 (External ''step'') \<and>
   train_one_epoch (toy 3 (Some 2)) 0 = Some (Inl (External ''step'')) \<and>
   run_raises (toy 3 (Some 2)) 30 0 [] (External ''step'') \<and>
   train (toy 3 (Some 2)) 30 0 = Some ([], Inl (External ''step'')) \<and>
   epoch_raises ((toy 1 None)\<lparr>backward := \<lambda>k loss w. Inl (External ''backward'')\<rparr>) 0
     (External ''backward'') \<and>
   train_one_epoch ((toy 1 None)\<lparr>backward := \<lambda>k loss w. Inl (External ''backward'')\<rparr>) 0 =
     Some (Inl (External ''backward'')) \<and>
   epoch_raises ((toy 1 None)\<lparr>zero_grad := \<lambda>k w. case k of
        Policy_function \<Rightarrow> Inl (External ''zero_grad'') | Value_function \<Rightarrow> Inr w\<rparr>) 0
     (External ''zero_grad'') \<and>
   train_one_epoch ((toy 1 None)\<lparr>zero_grad := \<lambda>k w. case k of
        Policy_function \<Rightarrow> Inl (External ''zero_grad'') | Value_function \<Rightarrow> Inr w\<rparr>) 0 =
     Some (Inl (External ''zero_grad''))"
proof -
  let ?c = "toy 3 (Some 2)"
  let ?e = "External ''step''"
  have "env_reset ?c 0 = Inr ((), 3)" by simp
  moreover have "after_steps 1 ?c ((), [], [], []) 3 =
                   Some (((), [1], [Nd [Sc 0]], [Sc (ln (1 / 2))]), 2)"
    by (simp add: episode_step_def get_policy_def get_action_def)
  moreover have "timestep_raises ?c (fst ((), [1 :: real], [Nd [Sc 0]], [Sc (ln (1 / 2))])) 2 ?e"
    by (simp add: timestep_raises_def)
  ultimately have ep: "episode_raises ?c 0 ?e" by (rule at_timestep)
  have "episodes_loop 0 ?c ([], [], [], []) 0 = Some (Inr (([], [], [], []), 0))" by simp
  with ep have epo: "epoch_raises ?c 0 ?e" by (intro in_episode [where j = 0]) simp_all
  have "train_setup ?c 0 = Inr 0" by (simp add: train_setup_def)
  moreover have "0 < nat 30" by simp
  moreover have "epochs_loop 0 ?c 0 [] 0 = Some ([], Inr 0)" by simp
  ultimately have run: "run_raises ?c 30 0 [] ?e" using epo by (rule in_epoch)
  let ?ep = "([1], [Sc (ln (1 / 2))], [Nd [Sc 0]], 1) :: episode"
  obtain pl vl where l: "batch_losses (replicate 200 ?ep) pl vl"
    using short_episodes_batch_losses [of 200 1 "ln (1 / 2)" 0] by auto
  let ?d = "(toy 1 None)\<lparr>backward := \<lambda>k loss w. Inl (External ''backward'')\<rparr>"
  have "run_one_episode ?d 0 = Some (Inr (?ep, 0))"
    by (simp add: run_one_episode_def episode_loop.simps episode_step_def get_policy_def
        get_action_def)
  then have "episodes_in_sequence 200 ?d 0 = Some (Inr (replicate 200 ?ep, 0))"
    by (rule episodes_in_sequence_constant)
  moreover note l
  moreover have "calls_in_order (update_calls ?d pl vl) 0 = Inl (External ''backward'')"
    by (simp add: update_calls_def)
  ultimately have upd: "epoch_raises ?d 0 (External ''backward'')" by (rule in_update)
  let ?z = "(toy 1 None)\<lparr>zero_grad := \<lambda>k w. case k of
        Policy_function \<Rightarrow> Inl (External ''zero_grad'') | Value_function \<Rightarrow> Inr w\<rparr>"
  have "run_one_episode ?z 0 = Some (Inr (?ep, 0))"
    by (simp add: run_one_episode_def episode_loop.simps episode_step_def get_policy_def
        get_action_def)
  then have "episodes_in_sequence 200 ?z 0 = Some (Inr (replicate 200 ?ep, 0))"
    by (rule episodes_in_sequence_constant)
  moreover note l
  moreover have "calls_in_order (update_calls ?z pl vl) 0 = Inl (External ''zero_grad'')"
    by (simp add: update_calls_def)
  ultimately have zer: "epoch_raises ?z 0 (External ''zero_grad'')" by (rule in_update)
  note th = collaborator_errors_propagate [of ?c 0 ?e 30 "[]"]
  note th' = collaborator_errors_propagate [of ?d 0 "External ''backward''"]
  note th'' = collaborator_errors_propagate [of ?z 0 "External ''zero_grad''"]
  from th ep have "run_one_episode ?c 0 = Some (Inl ?e)" by blast
  moreover from th epo have "train_one_epoch ?c 0 = Some (Inl ?e)" by blast
  moreover from th run have "train ?c 30 0 = Some ([], Inl ?e)" by blast
  moreover from th' upd have "train_one_epoch ?d 0 = Some (Inl (External ''backward''))" by blast
  moreover from th'' zer have "train_one_epoch ?z 0 = Some (Inl (External ''zero_grad''))"
    by blast
  ultimately show ?thesis using ep epo run upd zer by blast
qed

section \<open>The training driver\<close>

lemma digit_char: "d < 10 \<Longrightarrow> ''0123456789'' ! d \<in> set ''0123456789''"
  by (rule nth_mem) simp

lemma digits_chars: "set (digits n) \<subseteq> set ''0123456789''"
proof (induction n rule: digits.induct)
  case (1 n)
  show ?case
  proof (cases "n < 10")
    case True
    then show ?thesis using digit_char [of n] by (subst digits.simps) simp
  next
    case False
    have "n mod 10 < 10" by simp
    from digit_char [OF this] 1 [OF False] False show ?thesis
      by (subst digits.simps) simp
  qed
qed

lemma digits_length: "n < 10 ^ k \<Longrightarrow> 0 < k \<Longrightarrow> length (digits n) \<le> k"
proof (induction n arbitrary: k rule: digits.induct)
  case (1 n)
  show ?case
  proof (cases "n < 10")
    case True
    then show ?thesis using 1(3) by (subst digits.simps) simp
  next
    case False
    obtain k' where k: "k = Suc k'" using 1(3) by (cases k) auto
    from False 1(2) k have "0 < k'" by (cases k') auto
    moreover from 1(2) k have "n div 10 < 10 ^ k'" by (simp add: less_mult_imp_div_less mult.commute)
    ultimately have "length (digits (n div 10)) \<le> k'" using 1(1) [OF False] by blast
    then show ?thesis using False k by (subst digits.simps) simp
  qed
qed

lemma fmt_3f_three_decimals:
  "\<exists>whole frac. fmt_3f (Val r) = whole @ ''.'' @ frac \<and> length frac = 3 \<and>
                 set frac \<subseteq> set ''0123456789''"
proof -
  define n where "n = nat (round_half_even (\<bar>r\<bar> * 1000))"
  define frac where "frac = replicate (3 - length (digits (n mod 1000))) (CHR ''0'') @ digits (n mod 1000)"
  have "n mod 1000 < 10 ^ 3" by simp
  then have "length (digits (n mod 1000)) \<le> 3" by (rule digits_length) simp
  then have "length frac = 3" by (simp add: frac_def)
  moreover have "set frac \<subseteq> set ''0123456789''"
    using digits_chars [of "n mod 1000"] by (auto simp: frac_def)
  moreover have "fmt_3f (Val r) = ((if r < 0 then ''-'' else []) @ digits (n div 1000)) @ ''.'' @ frac"
    by (simp add: n_def frac_def Let_def)
  ultimately show ?thesis by blast
qed




lemma replicate_2: "replicate 2 x = [x, x]"
  by (simp add: numeral_2_eq_2)

text \<open>
  The line of epoch 0 with average 23.4: the text is \<open>epoch:\<close>, the index in
  three columns, a space, a tab, \<open>return:\<close> and the number with three decimals.
\<close>

lemma format_line_example:
  "format_line 0 (Val (117 / 5)) = ''epoch:   0 '' @ [CHR 0x09] @ '' return: 23.400''"
  by (simp add: format_line_def fmt_3d_def round_half_even_def digits.simps Let_def replicate_2)

subsection \<open>What a line says\<close>









subsection \<open>The lines of a run\<close>



text \<open>
  A run of two epochs of the cycling libraries, from a world in which nothing is
  set: the averages are 2.5 and, after the policy step has negated the parameter, 4.
\<close>

lemma cycle_setup:
  "train_setup (assemble cycle_libraries) w =
     Inr \<lparr>env_core = 0, env_rng = 0, torch_rng = 0, params = 1, tape = 1\<rparr>"
  by (cases w) (simp add: train_setup_def)

lemma cycle_first_epoch:
  "train_one_epoch (assemble cycle_libraries)
     \<lparr>env_core = 0, env_rng = 0, torch_rng = 0, params = 1, tape = 1\<rparr> =
   Some (Inr (Val (5 / 2), \<lparr>env_core = 0, env_rng = 0, torch_rng = 0, params = - 1, tape = 3\<rparr>))"
  using cycle_epoch [of 0 0 1 1] by (simp add: eval_nat_numeral)

lemma cycle_second_epoch:
  "train_one_epoch (assemble cycle_libraries)
     \<lparr>env_core = 0, env_rng = 0, torch_rng = 0, params = - 1, tape = 3\<rparr> =
   Some (Inr (Val 4, \<lparr>env_core = 0, env_rng = 0, torch_rng = 0, params = 1, tape = 5\<rparr>))"
  using cycle_epoch [of 0 1 "- 1" 3] by (simp add: eval_nat_numeral)

lemma cycle_run:
  "train (assemble cycle_libraries) 2 w =
     Some ([''epoch:   0 '' @ [CHR 0x09] @ '' return: 2.500'',
            ''epoch:   1 '' @ [CHR 0x09] @ '' return: 4.000''],
           Inr \<lparr>env_core = 0, env_rng = 0, torch_rng = 0, params = 1, tape = 5\<rparr>)"
  by (simp add: train_def cycle_setup numeral_2_eq_2 cycle_first_epoch [unfolded One_nat_def]
      cycle_second_epoch format_line_def fmt_3d_def round_half_even_def digits.simps Let_def replicate_2
      del: assemble_simps)



section \<open>Determinism\<close>

lemma train_setup_overwrites:
  fixes w1 w2 :: "('e, 'r, 'g, 'p, 'x) world"
  shows "train_setup (assemble L) w1 = train_setup (assemble L) w2"
  by (cases w1; cases w2) (simp add: train_setup_def split: sum.splits prod.splits)

lemma train_setup_seeds:
  fixes w :: "('e, 'r, 'g, 'p, 'x) world" and L :: "('o, 'e, 'r, 'g, 'p, 'x) libraries"
  assumes "train_setup (assemble L) w = Inr w0"
  shows "\<exists>made p x g.
           lib_make L = Inr made \<and>
           lib_create L made (lib_seed_torch L 0) = Inr ((p, x), g) \<and>
           w0 = \<lparr>env_core = made, env_rng = lib_seed_env L 0, torch_rng = g,
                 params = p, tape = x\<rparr>"
  using assms
  by (cases w) (auto simp: train_setup_def split: sum.splits prod.splits)

lemma assemble_agrees:
  fixes L :: "('o, 'e, 'r, 'g, 'p, 'x) libraries"
  shows "episode_calls_agree same_seed_and_parameters (assemble L)"
  unfolding episode_calls_agree_def agree_def
  by (auto simp: same_seed_and_parameters_def split: sum.splits prod.splits)

subsection \<open>Calls that agree, one after the other\<close>

lemma agree_raises:
  "agree R f \<Longrightarrow> R w1 w2 \<Longrightarrow> f w1 = Inl e \<Longrightarrow> f w2 = Inl e"
  unfolding agree_def by (auto split: sum.splits)

lemma agree_returns:
  "agree R f \<Longrightarrow> R w1 w2 \<Longrightarrow> f w1 = Inr (a, w1') \<Longrightarrow> \<exists>w2'. f w2 = Inr (a, w2') \<and> R w1' w2'"
  unfolding agree_def by (auto split: sum.splits)

lemma agree_then:
  assumes f: "agree R f" and g: "\<And>a. agree R (g a)"
  shows "agree R (\<lambda>w. case f w of Inl e \<Rightarrow> Inl e | Inr (a, w') \<Rightarrow> g a w')"
  unfolding agree_def
proof (intro allI impI)
  fix w1 w2
  assume r: "R w1 w2"
  show "case (case f w1 of Inl e \<Rightarrow> Inl e | Inr (a, w') \<Rightarrow> g a w') of
          Inl e \<Rightarrow> (case f w2 of Inl e \<Rightarrow> Inl e | Inr (a, w') \<Rightarrow> g a w') = Inl e
        | Inr (b, w1') \<Rightarrow>
            (\<exists>w2'. (case f w2 of Inl e \<Rightarrow> Inl e | Inr (a, w') \<Rightarrow> g a w') = Inr (b, w2') \<and>
                   R w1' w2')"
  proof (cases "f w1")
    case (Inl e)
    with agree_raises [OF f r] show ?thesis by simp
  next
    case (Inr p)
    obtain a w1a where p: "p = (a, w1a)" by (cases p)
    from agree_returns [OF f r] Inr p obtain w2a where
      f2: "f w2 = Inr (a, w2a)" and ra: "R w1a w2a" by blast
    from g [of a] ra have
      "case g a w1a of
         Inl e \<Rightarrow> g a w2a = Inl e
       | Inr (b, w1') \<Rightarrow> (\<exists>w2'. g a w2a = Inr (b, w2') \<and> R w1' w2')"
      unfolding agree_def by blast
    with Inr p f2 show ?thesis by (auto split: sum.splits)
  qed
qed

lemma agree_result:
  "agree R (\<lambda>w. Inr (a, w))"
  unfolding agree_def by simp

lemma episode_step_agree:
  assumes "episode_calls_agree R c"
  shows "agree R (episode_step c s)"
proof -
  obtain observation rs svs lps where s: "s = (observation, rs, svs, lps)" by (cases s)
  have eq: "episode_step c s =
      (\<lambda>w. case value_function_model c observation w of
             Inl e \<Rightarrow> Inl e
           | Inr (estimate, w1) \<Rightarrow>
        (\<lambda>w. case policy_function_model c observation w of
             Inl e \<Rightarrow> Inl e
           | Inr (logits, w2) \<Rightarrow>
        (\<lambda>w. case categorical_sample c logits w of
             Inl e \<Rightarrow> Inl e
           | Inr (action, w3) \<Rightarrow>
        (\<lambda>w. case categorical_log_prob c logits action w of
             Inl e \<Rightarrow> Inl e
           | Inr (lp, w4) \<Rightarrow>
        (\<lambda>w. case env_step c action w of
             Inl e \<Rightarrow> Inl e
           | Inr (result, w5) \<Rightarrow>
               (\<lambda>w. Inr ((snd (snd result),
                           (fst result, rs @ [fst (snd result)], svs @ [estimate], lps @ [lp])),
                          w)) w5) w4) w3) w2) w1)"
    by (rule ext)
      (simp add: s episode_step_def get_policy_def get_action_def split: sum.splits prod.splits)
  from assms show ?thesis
    unfolding eq episode_calls_agree_def
    by (intro agree_then agree_result) blast+
qed

lemma episode_loop_agree:
  fixes c :: "('o, 'w) collab"
  assumes calls: "episode_calls_agree R c"
    and run: "episode_loop c s w1 = Some y" and rel: "R w1 w2"
  shows "case y of
           Inl e \<Rightarrow> episode_loop c s w2 = Some (Inl e)
         | Inr (s', w1') \<Rightarrow>
             (\<exists>w2'. episode_loop c s w2 = Some (Inr (s', w2')) \<and> R w1' w2')"
proof -
  let ?post = "\<lambda>(s :: 'o vars) (w2 :: 'w) (y :: error + 'o vars \<times> 'w). case y of
           Inl e \<Rightarrow> episode_loop c s w2 = Some (Inl e)
         | Inr (s', w1') \<Rightarrow>
             (\<exists>w2'. episode_loop c s w2 = Some (Inr (s', w2')) \<and> R w1' w2')"
  have "c' = c \<longrightarrow> (\<forall>w2. R w1 w2 \<longrightarrow> ?post s w2 y)"
    if "episode_loop c' s w1 = Some y" for c' s w1 y
    using that
  proof (induction rule: episode_loop.raw_induct [rotated 1, consumes 1])
    case (1 loop c' s w1 y)
    show ?case
    proof (intro impI allI)
      fix w2
      assume c': "c' = c" and r: "R w1 w2"
      note step = episode_step_agree [OF calls, of s]
      show "?post s w2 y"
      proof (cases "episode_step c s w1")
        case (Inl e)
        from agree_raises [OF step r Inl] have "episode_loop c s w2 = Some (Inl e)"
          by (subst episode_loop.simps) simp
        moreover from 1(2) Inl c' have "y = Inl e" by simp
        ultimately show ?thesis by simp
      next
        case (Inr p)
        obtain d s1 w1' where p: "p = ((d, s1), w1')" by (metis prod.exhaust)
        from agree_returns [OF step r] Inr p obtain w2' where
          st2: "episode_step c s w2 = Inr ((d, s1), w2')" and r': "R w1' w2'" by blast
        show ?thesis
        proof (cases d)
          case True
          with 1(2) Inr p c' have y: "y = Inr (s1, w1')" by simp
          from st2 True have "episode_loop c s w2 = Some (Inr (s1, w2'))"
            by (subst episode_loop.simps) simp
          with r' y show ?thesis by auto
        next
          case False
          with 1(2) Inr p c' have "loop c s1 w1' = Some y" by simp
          with 1(1) c' r' have post: "?post s1 w2' y" by blast
          from st2 False have eq: "episode_loop c s w2 = episode_loop c s1 w2'"
            by (subst episode_loop.simps) simp
          show ?thesis unfolding eq by (rule post)
        qed
      qed
    qed
  qed
  from this [OF run] rel show ?thesis by blast
qed

lemma run_one_episode_agree:
  fixes c :: "('o, 'w) collab"
  assumes calls: "episode_calls_agree R c"
    and run: "run_one_episode c w1 = Some y" and rel: "R w1 w2"
  shows "case y of
           Inl e \<Rightarrow> run_one_episode c w2 = Some (Inl e)
         | Inr (ep, w1') \<Rightarrow>
             (\<exists>w2'. run_one_episode c w2 = Some (Inr (ep, w2')) \<and> R w1' w2')"
proof -
  from calls have reset: "agree R (env_reset c)" by (simp add: episode_calls_agree_def)
  show ?thesis
  proof (cases "env_reset c w1")
    case (Inl e)
    from agree_raises [OF reset rel Inl] Inl run show ?thesis
      by (auto simp: run_one_episode_def)
  next
    case (Inr p)
    obtain obs w1a where p: "p = (obs, w1a)" by (cases p)
    from agree_returns [OF reset rel] Inr p obtain w2a where
      r2: "env_reset c w2 = Inr (obs, w2a)" and ra: "R w1a w2a" by blast
    from Inr p have r1: "env_reset c w1 = Inr (obs, w1a)" by simp
    from run r1 obtain z where l1: "episode_loop c (obs, [], [], []) w1a = Some z"
      by (cases "episode_loop c (obs, [], [], []) w1a") (simp_all add: run_one_episode_def)
    note loop = episode_loop_agree [OF calls l1 ra]
    show ?thesis
    proof (cases z)
      case raised: (Inl e)
      with loop have "episode_loop c (obs, [], [], []) w2a = Some (Inl e)" by simp
      with r2 have "run_one_episode c w2 = Some (Inl e)" by (simp add: run_one_episode_def)
      moreover from run r1 l1 raised have "y = Inl e" by (simp add: run_one_episode_def)
      ultimately show ?thesis by simp
    next
      case returned: (Inr q)
      obtain obs' rs svs lps w1' where q: "q = ((obs', rs, svs, lps), w1')"
        by (metis prod.exhaust)
      from loop returned q obtain w2' where
        l2: "episode_loop c (obs, [], [], []) w2a = Some (Inr ((obs', rs, svs, lps), w2'))"
        and r': "R w1' w2'" by auto
      from run r1 l1 returned q
      have y: "y = Inr ((replicate (length rs) (sum_list rs), lps, svs, sum_list rs), w1')"
        by (simp add: run_one_episode_def Let_def)
      from r2 l2
      have "run_one_episode c w2 =
              Some (Inr ((replicate (length rs) (sum_list rs), lps, svs, sum_list rs), w2'))"
        by (simp add: run_one_episode_def Let_def)
      with y r' show ?thesis by auto
    qed
  qed
qed

lemma episodes_in_sequence_agree:
  fixes c :: "('o, 'w) collab"
  assumes calls: "episode_calls_agree R c"
    and "episodes_in_sequence n c w1 = Some y" and "R w1 w2"
  shows "case y of
           Inl e \<Rightarrow> episodes_in_sequence n c w2 = Some (Inl e)
         | Inr (eps, w1') \<Rightarrow>
             (\<exists>w2'. episodes_in_sequence n c w2 = Some (Inr (eps, w2')) \<and> R w1' w2')"
  using assms(2,3)
proof (induction n arbitrary: w1 w2 y)
  case 0
  then show ?case by auto
next
  case (Suc n)
  from Suc.prems(1) obtain z where ep: "run_one_episode c w1 = Some z"
    by (cases "run_one_episode c w1") simp_all
  note rel = run_one_episode_agree [OF calls ep Suc.prems(2)]
  show ?case
  proof (cases z)
    case raised: (Inl e)
    with rel have "run_one_episode c w2 = Some (Inl e)" by simp
    moreover from Suc.prems(1) ep raised have "y = Inl e" by simp
    ultimately show ?thesis by simp
  next
    case returned: (Inr q)
    obtain ep1 w1m where q: "q = (ep1, w1m)" by (cases q)
    from rel returned q obtain w2m where
      ep2: "run_one_episode c w2 = Some (Inr (ep1, w2m))"
      and s: "R w1m w2m" by auto
    from Suc.prems(1) ep returned q obtain y' where
      rest: "episodes_in_sequence n c w1m = Some y'"
      by (cases "episodes_in_sequence n c w1m") simp_all
    note ih = Suc.IH [OF rest s]
    show ?thesis
    proof (cases y')
      case (Inl e)
      with ih have "episodes_in_sequence n c w2m = Some (Inl e)" by simp
      moreover from Suc.prems(1) ep returned q rest Inl have "y = Inl e" by simp
      ultimately show ?thesis using ep2 by simp
    next
      case (Inr r)
      obtain eps w1' where r: "r = (eps, w1')" by (cases r)
      from ih Inr r obtain w2' where
        "episodes_in_sequence n c w2m = Some (Inr (eps, w2'))"
        and "R w1' w2'" by auto
      moreover from Suc.prems(1) ep returned q rest Inr r have "y = Inr (ep1 # eps, w1')"
        by simp
      ultimately show ?thesis using ep2 by simp
    qed
  qed
qed

subsection \<open>Two epochs\<close>

lemma train_one_epoch_hangs:
  "train_one_epoch c w = None \<longleftrightarrow> episodes_in_sequence 200 c w = None"
  unfolding train_one_epoch_def episodes_loop_as_sequence
  by (auto split: option.splits sum.splits prod.splits)

lemma train_one_epoch_ends:
  assumes "episode_calls_agree R c" and "R w1 w2" and "train_one_epoch c w1 = Some r1"
  shows "\<exists>r2. train_one_epoch c w2 = Some r2"
proof -
  from assms(3) obtain y where "episodes_in_sequence 200 c w1 = Some y"
    using train_one_epoch_hangs [of c w1] by auto
  from episodes_in_sequence_agree [OF assms(1) this assms(2)]
  have "episodes_in_sequence 200 c w2 \<noteq> None" by (cases y) auto
  then show ?thesis using train_one_epoch_hangs [of c w2] by auto
qed

lemma train_one_epoch_two_runs:
  assumes "episode_calls_agree R c" and "R w1 w2"
    and "train_one_epoch c w1 = Some (Inr (m1, w1'))"
  shows "\<exists>eps w1m w2m policy_loss value_loss.
           episodes_in_sequence 200 c w1 = Some (Inr (eps, w1m)) \<and>
           episodes_in_sequence 200 c w2 = Some (Inr (eps, w2m)) \<and>
           R w1m w2m \<and>
           m1 = Val (sum_list (map ep_return eps) / 200) \<and>
           batch_losses eps policy_loss value_loss \<and>
           train_one_epoch c w2 =
             (case calls_in_order (update_calls c policy_loss value_loss) w2m of
                Inl e \<Rightarrow> Some (Inl e)
              | Inr w2' \<Rightarrow> Some (Inr (m1, w2')))"
proof -
  from train_one_epoch_returned [OF assms(3)] obtain eps w1m pl vl where
    seq1: "episodes_in_sequence 200 c w1 = Some (Inr (eps, w1m))"
    and len: "length eps = 200"
    and bl: "batch_losses eps pl vl"
    and m: "m1 = Val (sum_list (map ep_return eps) / 200)"
    by blast
  from episodes_in_sequence_agree [OF assms(1) seq1 assms(2)] obtain w2m where
    seq2: "episodes_in_sequence 200 c w2 = Some (Inr (eps, w2m))"
    and s: "R w1m w2m" by auto
  have loop: "episodes_loop 200 c ([], [], [], []) w2 =
      Some (Inr ((concat (map ep_action_returns eps), concat (map ep_log_probabilities eps),
                  concat (map ep_value_estimates eps), map ep_return eps), w2m))"
    unfolding episodes_loop_as_sequence seq2 by simp
  from bl have l: "epoch_losses (concat (map ep_action_returns eps))
      (concat (map ep_log_probabilities eps)) (concat (map ep_value_estimates eps)) =
      Inr (pl, vl)"
    by (simp add: epoch_losses_batch)
  from len have "eps \<noteq> []" by auto
  with len m have np: "np_mean (map ep_return eps) = m1" by (simp add: np_mean_def)
  have "train_one_epoch c w2 =
          (case calls_in_order (update_calls c pl vl) w2m of
             Inl e \<Rightarrow> Some (Inl e)
           | Inr w2' \<Rightarrow> Some (Inr (m1, w2')))"
    unfolding train_one_epoch_def loop
    by (simp add: l step_weights_calls np split: sum.splits)
  with seq1 seq2 s m bl show ?thesis by blast
qed

lemma train_one_epoch_same_mean:
  assumes "episode_calls_agree R c" and "R w1 w2"
    and "train_one_epoch c w1 = Some (Inr (m1, w1'))"
    and "train_one_epoch c w2 = Some (Inr (m2, w2'))"
  shows "m1 = m2"
proof -
  from train_one_epoch_two_runs [OF assms(1,2,3)] obtain pl vl w2m where
    "train_one_epoch c w2 =
       (case calls_in_order (update_calls c pl vl) w2m of
          Inl e \<Rightarrow> Some (Inl e)
        | Inr w2' \<Rightarrow> Some (Inr (m1, w2')))"
    by blast
  with assms(4) show ?thesis by (simp split: sum.splits)
qed

lemma same_seed_same_average_all:
  fixes c :: "('o, 'w) collab"
    and v1 v2 v :: "('e, 'r, 'g, 'p, 'x) world" and L :: "('a, 'e, 'r, 'g, 'p, 'x) libraries"
  shows "(episode_calls_agree R c \<and> R w1 w2 \<and>
          train_one_epoch c w1 = Some (Inr (m1, w1')) \<longrightarrow>
            (\<exists>eps w1m w2m policy_loss value_loss.
               episodes_in_sequence 200 c w1 = Some (Inr (eps, w1m)) \<and>
               episodes_in_sequence 200 c w2 = Some (Inr (eps, w2m)) \<and>
               R w1m w2m \<and>
               m1 = Val (sum_list (map ep_return eps) / 200) \<and>
               batch_losses eps policy_loss value_loss \<and>
               train_one_epoch c w2 =
                 (case calls_in_order (update_calls c policy_loss value_loss) w2m of
                    Inl e \<Rightarrow> Some (Inl e)
                  | Inr w2' \<Rightarrow> Some (Inr (m1, w2'))))) \<and>
         (episode_calls_agree R c \<and> R w1 w2 \<and>
          train_one_epoch c w1 = Some (Inr (m1, w1')) \<and>
          train_one_epoch c w2 = Some (Inr (m2, w2')) \<longrightarrow> m1 = m2) \<and>
         (episode_calls_agree R c \<and> R w1 w2 \<and> train_one_epoch c w1 = Some r1 \<longrightarrow>
            (\<exists>r2. train_one_epoch c w2 = Some r2)) \<and>
         episode_calls_agree same_seed_and_parameters (assemble L) \<and>
         (train_setup (assemble L) v = Inr v0 \<longrightarrow>
            (\<exists>made p x g.
               lib_make L = Inr made \<and>
               lib_create L made (lib_seed_torch L 0) = Inr ((p, x), g) \<and>
               v0 = \<lparr>env_core = made, env_rng = lib_seed_env L 0, torch_rng = g,
                     params = p, tape = x\<rparr>)) \<and>
         train (assemble L) epochs v1 = train (assemble L) epochs v2"
proof (intro conjI impI)
  assume a: "episode_calls_agree R c \<and> R w1 w2 \<and>
             train_one_epoch c w1 = Some (Inr (m1, w1'))"
  show "\<exists>eps w1m w2m policy_loss value_loss.
               episodes_in_sequence 200 c w1 = Some (Inr (eps, w1m)) \<and>
               episodes_in_sequence 200 c w2 = Some (Inr (eps, w2m)) \<and>
               R w1m w2m \<and>
               m1 = Val (sum_list (map ep_return eps) / 200) \<and>
               batch_losses eps policy_loss value_loss \<and>
               train_one_epoch c w2 =
                 (case calls_in_order (update_calls c policy_loss value_loss) w2m of
                    Inl e \<Rightarrow> Some (Inl e)
                  | Inr w2' \<Rightarrow> Some (Inr (m1, w2')))"
    by (rule train_one_epoch_two_runs
          [OF a [THEN conjunct1] a [THEN conjunct2, THEN conjunct1]
              a [THEN conjunct2, THEN conjunct2]])
next
  assume a: "episode_calls_agree R c \<and> R w1 w2 \<and>
          train_one_epoch c w1 = Some (Inr (m1, w1')) \<and>
          train_one_epoch c w2 = Some (Inr (m2, w2'))"
  show "m1 = m2"
    by (rule train_one_epoch_same_mean
          [OF a [THEN conjunct1] a [THEN conjunct2, THEN conjunct1]
              a [THEN conjunct2, THEN conjunct2, THEN conjunct1]
              a [THEN conjunct2, THEN conjunct2, THEN conjunct2]])
next
  assume a: "episode_calls_agree R c \<and> R w1 w2 \<and> train_one_epoch c w1 = Some r1"
  show "\<exists>r2. train_one_epoch c w2 = Some r2"
    by (rule train_one_epoch_ends
          [OF a [THEN conjunct1] a [THEN conjunct2, THEN conjunct1]
              a [THEN conjunct2, THEN conjunct2]])
next
  show "episode_calls_agree same_seed_and_parameters (assemble L)" by (rule assemble_agrees)
next
  assume "train_setup (assemble L) v = Inr v0"
  then show "\<exists>made p x g.
               lib_make L = Inr made \<and>
               lib_create L made (lib_seed_torch L 0) = Inr ((p, x), g) \<and>
               v0 = \<lparr>env_core = made, env_rng = lib_seed_env L 0, torch_rng = g,
                     params = p, tape = x\<rparr>"
    by (rule train_setup_seeds)
next
  show "train (assemble L) epochs v1 = train (assemble L) epochs v2"
    unfolding train_def train_setup_overwrites [of L v1 v2] ..
qed

text \<open>
  Epochs of the cycling libraries from other worlds: with the random bit of torch
  seeded the other way, and with the opposite parameter, the average is another.
\<close>

lemma cycle_other_seed_epoch:
  "train_one_epoch (assemble cycle_libraries)
     \<lparr>env_core = 0, env_rng = 0, torch_rng = 1, params = 1, tape = 1\<rparr> =
   Some (Inr (Val 4, \<lparr>env_core = 0, env_rng = 0, torch_rng = 1, params = - 1, tape = 3\<rparr>))"
  using cycle_epoch [of 1 1 1 1] by (simp add: eval_nat_numeral)

lemma cycle_later_epoch:
  "train_one_epoch (assemble cycle_libraries)
     \<lparr>env_core = 0, env_rng = 0, torch_rng = 0, params = 1, tape = 5\<rparr> =
   Some (Inr (Val (5 / 2), \<lparr>env_core = 0, env_rng = 0, torch_rng = 0, params = - 1, tape = 7\<rparr>))"
  using cycle_epoch [of 0 0 1 5] by (simp add: eval_nat_numeral)

text \<open>
  Claim C9. Let the calls of an episode agree for a relation between worlds, and
  take two worlds it relates. When an epoch from the first returns a mean, the
  epoch from the second runs the same 200 episodes, the mean is the mean of their
  returns, and the second epoch returns that same mean, unless one of its six
  update calls raises, which it then raises. So two epochs that both return, return
  the same mean, and when the first ends the second ends. Libraries that are
  functions of the state they keep agree in this way for worlds that hold the same
  environment, the same two seeded random sources and the same parameters,
  whatever else they hold (the gradient buffers, the state of the optimizers). The
  driver brings this about: its set-up makes the environment, seeds torch's random
  source with 0, seeds the environment with 0 and creates the models from the seeded
  source, so that the world after the set-up holds nothing of the world before it,
  and two runs of the driver give the same output and the same result whatever the
  worlds they start from.
\<close>

theorem same_seed_same_average:
  fixes c :: "('o, 'w) collab"
    and v1 v2 v :: "('e, 'r, 'g, 'p, 'x) world" and L :: "('a, 'e, 'r, 'g, 'p, 'x) libraries"
  shows "(episode_calls_agree R c \<and> R w1 w2 \<and>
          train_one_epoch c w1 = Some (Inr (m1, w1')) \<longrightarrow>
            (\<exists>eps w1m w2m policy_loss value_loss.
               episodes_in_sequence 200 c w1 = Some (Inr (eps, w1m)) \<and>
               episodes_in_sequence 200 c w2 = Some (Inr (eps, w2m)) \<and>
               R w1m w2m \<and>
               m1 = Val (sum_list (map ep_return eps) / 200) \<and>
               batch_losses eps policy_loss value_loss \<and>
               train_one_epoch c w2 =
                 (case calls_in_order (update_calls c policy_loss value_loss) w2m of
                    Inl e \<Rightarrow> Some (Inl e)
                  | Inr w2' \<Rightarrow> Some (Inr (m1, w2'))))) \<and>
         (episode_calls_agree R c \<and> R w1 w2 \<and>
          train_one_epoch c w1 = Some (Inr (m1, w1')) \<and>
          train_one_epoch c w2 = Some (Inr (m2, w2')) \<longrightarrow> m1 = m2) \<and>
         (episode_calls_agree R c \<and> R w1 w2 \<and> train_one_epoch c w1 = Some r1 \<longrightarrow>
            (\<exists>r2. train_one_epoch c w2 = Some r2)) \<and>
         episode_calls_agree same_seed_and_parameters (assemble L) \<and>
         (train_setup (assemble L) v = Inr v0 \<longrightarrow>
            (\<exists>made p x g.
               lib_make L = Inr made \<and>
               lib_create L made (lib_seed_torch L 0) = Inr ((p, x), g) \<and>
               v0 = \<lparr>env_core = made, env_rng = lib_seed_env L 0, torch_rng = g,
                     params = p, tape = x\<rparr>)) \<and>
         train (assemble L) epochs v1 = train (assemble L) epochs v2"
  by (rule same_seed_same_average_all)

theorem same_seed_same_average_witness:
  "episode_calls_agree same_seed_and_parameters (assemble cycle_libraries) \<and>
   same_seed_and_parameters
     \<lparr>env_core = 0 :: nat, env_rng = 0 :: nat, torch_rng = 0 :: nat, params = 1 :: real, tape = 1 :: nat\<rparr>
     \<lparr>env_core = 0, env_rng = 0, torch_rng = 0, params = 1, tape = 5\<rparr> \<and>
   train_one_epoch (assemble cycle_libraries)
     \<lparr>env_core = 0, env_rng = 0, torch_rng = 0, params = 1, tape = 1\<rparr> =
     Some (Inr (Val (5 / 2), \<lparr>env_core = 0, env_rng = 0, torch_rng = 0, params = - 1, tape = 3\<rparr>)) \<and>
   train_one_epoch (assemble cycle_libraries)
     \<lparr>env_core = 0, env_rng = 0, torch_rng = 0, params = 1, tape = 5\<rparr> =
     Some (Inr (Val (5 / 2), \<lparr>env_core = 0, env_rng = 0, torch_rng = 0, params = - 1, tape = 7\<rparr>)) \<and>
   same_seed_and_parameters
     \<lparr>env_core = 0 :: nat, env_rng = 0 :: nat, torch_rng = 0 :: nat, params = 1 :: real, tape = 1 :: nat\<rparr>
     \<lparr>env_core = 0, env_rng = 0, torch_rng = 0, params = 1, tape = 0\<rparr> \<and>
   train_one_epoch (assemble cycle_libraries)
     \<lparr>env_core = 0, env_rng = 0, torch_rng = 0, params = 1, tape = 0\<rparr> =
     Some (Inl (External ''no graph'')) \<and>
   \<not> same_seed_and_parameters
     \<lparr>env_core = 0 :: nat, env_rng = 0 :: nat, torch_rng = 0 :: nat, params = 1 :: real, tape = 1 :: nat\<rparr>
     \<lparr>env_core = 0, env_rng = 0, torch_rng = 1, params = 1, tape = 1\<rparr> \<and>
   train_one_epoch (assemble cycle_libraries)
     \<lparr>env_core = 0, env_rng = 0, torch_rng = 1, params = 1, tape = 1\<rparr> =
     Some (Inr (Val 4, \<lparr>env_core = 0, env_rng = 0, torch_rng = 1, params = - 1, tape = 3\<rparr>)) \<and>
   \<not> same_seed_and_parameters
     \<lparr>env_core = 0 :: nat, env_rng = 0 :: nat, torch_rng = 0 :: nat, params = 1 :: real, tape = 1 :: nat\<rparr>
     \<lparr>env_core = 0, env_rng = 0, torch_rng = 0, params = - 1, tape = 3\<rparr> \<and>
   train_one_epoch (assemble cycle_libraries)
     \<lparr>env_core = 0, env_rng = 0, torch_rng = 0, params = - 1, tape = 3\<rparr> =
     Some (Inr (Val 4, \<lparr>env_core = 0, env_rng = 0, torch_rng = 0, params = 1, tape = 5\<rparr>)) \<and>
   train_setup (assemble cycle_libraries)
     \<lparr>env_core = 5, env_rng = 1, torch_rng = 1, params = 7, tape = 0\<rparr> =
     Inr \<lparr>env_core = 0, env_rng = 0, torch_rng = 0, params = 1, tape = 1\<rparr> \<and>
   lib_make cycle_libraries = Inr 0 \<and>
   lib_create cycle_libraries 0 (lib_seed_torch cycle_libraries 0) = Inr ((1, 1), 0) \<and>
   lib_seed_env cycle_libraries 0 = 0 \<and>
   train (assemble cycle_libraries) 2
     \<lparr>env_core = 0, env_rng = 0, torch_rng = 0, params = 1, tape = 1\<rparr> =
   train (assemble cycle_libraries) 2
     \<lparr>env_core = 5, env_rng = 1, torch_rng = 1, params = 7, tape = 0\<rparr> \<and>
   train (assemble cycle_libraries) 2
     \<lparr>env_core = 5, env_rng = 1, torch_rng = 1, params = 7, tape = 0\<rparr> =
     Some ([''epoch:   0 '' @ [CHR 0x09] @ '' return: 2.500'',
            ''epoch:   1 '' @ [CHR 0x09] @ '' return: 4.000''],
           Inr \<lparr>env_core = 0, env_rng = 0, torch_rng = 0, params = 1, tape = 5\<rparr>)"
proof -
  let ?c = "assemble cycle_libraries"
  let ?first = "\<lparr>env_core = 0 :: nat, env_rng = 0 :: nat, torch_rng = 0 :: nat,
                  params = 1 :: real, tape = 1 :: nat\<rparr>"
  let ?later = "\<lparr>env_core = 0 :: nat, env_rng = 0 :: nat, torch_rng = 0 :: nat,
                  params = 1 :: real, tape = 5 :: nat\<rparr>"
  let ?empty = "\<lparr>env_core = 0 :: nat, env_rng = 0 :: nat, torch_rng = 0 :: nat,
                  params = 1 :: real, tape = 0 :: nat\<rparr>"
  let ?stepped = "\<lparr>env_core = 0 :: nat, env_rng = 0 :: nat, torch_rng = 0 :: nat,
                    params = - 1 :: real, tape = 3 :: nat\<rparr>"
  let ?unset = "\<lparr>env_core = 5 :: nat, env_rng = 1 :: nat, torch_rng = 1 :: nat,
                  params = 7 :: real, tape = 0 :: nat\<rparr>"
  have s1: "same_seed_and_parameters ?first ?later" by (simp add: same_seed_and_parameters_def)
  have s2: "same_seed_and_parameters ?first ?empty" by (simp add: same_seed_and_parameters_def)
  have e1: "train_one_epoch ?c ?first = Some (Inr (Val (5 / 2), ?stepped))"
    by (rule cycle_first_epoch)
  have e2: "train_one_epoch ?c ?later = Some (Inr (Val (5 / 2),
              \<lparr>env_core = 0, env_rng = 0, torch_rng = 0, params = - 1, tape = 7\<rparr>))"
    by (rule cycle_later_epoch)
  have su: "train_setup ?c ?unset = Inr ?first" by (rule cycle_setup)
  note th = same_seed_same_average
    [where c = ?c and R = same_seed_and_parameters and ?w1.0 = ?first and ?w2.0 = ?later
       and ?m1.0 = "Val (5 / 2)" and w1' = ?stepped and ?m2.0 = "Val (5 / 2)"
       and w2' = "\<lparr>env_core = 0, env_rng = 0, torch_rng = 0, params = - 1, tape = 7\<rparr>"
       and ?r1.0 = "Inr (Val (5 / 2), ?stepped)"
       and L = cycle_libraries and v = ?unset and ?v0.0 = ?first and ?v1.0 = ?first
       and ?v2.0 = ?unset and epochs = 2]
  note th' = same_seed_same_average
    [where c = ?c and R = same_seed_and_parameters and ?w1.0 = ?first and ?w2.0 = ?empty
       and ?m1.0 = "Val (5 / 2)" and w1' = ?stepped and L = cycle_libraries]
  from th have ag: "episode_calls_agree same_seed_and_parameters ?c" by blast
  from th' ag s2 e1 obtain eps w2m pl vl where
    seq: "episodes_in_sequence 200 ?c ?empty = Some (Inr (eps, w2m))"
    and r: "train_one_epoch ?c ?empty =
              (case calls_in_order (update_calls ?c pl vl) w2m of
                 Inl e \<Rightarrow> Some (Inl e)
               | Inr w2' \<Rightarrow> Some (Inr (Val (5 / 2), w2')))"
    by blast
  from seq have "w2m = ?empty" using cycle_episodes [of 0 0 1 0] by simp
  with r have e3: "train_one_epoch ?c ?empty = Some (Inl (External ''no graph''))"
    by (simp add: update_calls_def)
  from th su have made: "lib_make cycle_libraries = Inr 0 \<and>
      lib_create cycle_libraries 0 (lib_seed_torch cycle_libraries 0) = Inr ((1, 1), 0) \<and>
      lib_seed_env cycle_libraries 0 = 0"
    by auto
  from th have t: "train ?c 2 ?first = train ?c 2 ?unset" by blast
  have n1: "\<not> same_seed_and_parameters ?first
              \<lparr>env_core = 0, env_rng = 0, torch_rng = 1, params = 1, tape = 1\<rparr>"
    and n2: "\<not> same_seed_and_parameters ?first ?stepped"
    by (simp_all add: same_seed_and_parameters_def)
  note made1 = made [THEN conjunct1] and made2 = made [THEN conjunct2, THEN conjunct1]
    and made3 = made [THEN conjunct2, THEN conjunct2]
  show ?thesis
    by (intro conjI)
      (fact ag s1 e1 e2 s2 e3 n1 cycle_other_seed_epoch n2 cycle_second_epoch su made1 made2
         made3 t cycle_run [of ?unset])+
qed

end
